theory Spec2Isabelle
  imports Complex_Main "HOL-Library.Sublist" "HOL-Library.List_Lexorder" "HOL-Library.Char_ord"
begin

section \<open>Strings and errors\<close>

text \<open>
  A Go \<^verbatim>\<open>string\<close> is a sequence of bytes, so it is modelled by \<^typ>\<open>string\<close>
  (a list of 8-bit \<^typ>\<open>char\<close>s); \<^verbatim>\<open>len(s)\<close> is \<^term>\<open>length s\<close>.
  Every error of the source is a \<^verbatim>\<open>fmt.Errorf\<close> value; the model keeps the message
  of the source, and the wrapped error where the format has \<^verbatim>\<open>%w\<close>. A slice
  expression out of range panics, and the conversion of a floating-point value that is
  not finite to an integer is left to the implementation. An error of the database is
  kept by the name of its condition.
\<close>

datatype error =
    Errorf string
  | Wrapf string error
  | PanicSliceBounds
  | ImplementationDefined
  | PgError string

section \<open>Line diff (diff.go)\<close>

record DiffLine =
  Type :: string
  Content :: string
  LineNum :: int

text \<open>\<^verbatim>\<open>strings.Split(s, "\n")\<close>: the pieces between newlines; the empty string gives one
  empty piece.\<close>

fun Split_newline :: "string \<Rightarrow> string list" where
  "Split_newline [] = [[]]"
| "Split_newline (c # cs) =
     (if c = CHR 10 then [] # Split_newline cs
      else (case Split_newline cs of
              [] \<Rightarrow> [[c]]
            | l # ls \<Rightarrow> (c # l) # ls))"

text \<open>The body of the \<^verbatim>\<open>for i := 0; i < maxLen; i++\<close> loop of
  \<^verbatim>\<open>GenerateContentDiff\<close>: one pass for the index \<^verbatim>\<open>i\<close>, on the loop variables
  \<^verbatim>\<open>lineNum\<close> and \<^verbatim>\<open>diff\<close>.\<close>

definition diff_step ::
  "string list \<Rightarrow> string list \<Rightarrow> nat \<Rightarrow> int \<times> DiffLine list \<Rightarrow> int \<times> DiffLine list" where
  "diff_step oldLines newLines i st =
     (case st of (lineNum, diff) \<Rightarrow>
        (let oldLine = (if i < length oldLines then oldLines ! i else []);
             newLine = (if i < length newLines then newLines ! i else [])
         in if oldLine = newLine then
              (lineNum + 1,
               diff @ [\<lparr>Type = ''unchanged'', Content = oldLine, LineNum = lineNum\<rparr>])
            else
              (let diff1 = (if oldLine \<noteq> [] \<and> i < length oldLines
                            then diff @ [\<lparr>Type = ''removed'', Content = oldLine, LineNum = lineNum\<rparr>]
                            else diff)
               in if newLine \<noteq> [] \<and> i < length newLines then
                    (lineNum + 1,
                     diff1 @ [\<lparr>Type = ''added'', Content = newLine, LineNum = lineNum\<rparr>])
                  else (lineNum, diff1))))"

definition GenerateContentDiff :: "string \<Rightarrow> string \<Rightarrow> DiffLine list" where
  "GenerateContentDiff oldContent newContent =
     (let oldLines = Split_newline oldContent;
          newLines = Split_newline newContent;
          maxLen = (if length newLines > length oldLines then length newLines
                    else length oldLines)
      in snd (fold (diff_step oldLines newLines) [0..<maxLen] (1, [])))"

text \<open>The reading of the claim: the line of a body at an index (empty past its end),
  and the records a positional diff gives at one index.\<close>

definition line_at :: "string list \<Rightarrow> nat \<Rightarrow> string" where
  "line_at ls i = (if i < length ls then ls ! i else [])"

definition records_at :: "string list \<Rightarrow> string list \<Rightarrow> nat \<Rightarrow> (string \<times> string) list" where
  "records_at ol nl i =
     (if line_at ol i = line_at nl i then [(''unchanged'', line_at ol i)]
      else (if line_at ol i \<noteq> [] then [(''removed'', line_at ol i)] else []) @
           (if line_at nl i \<noteq> [] then [(''added'', line_at nl i)] else []))"

definition kind_content :: "DiffLine \<Rightarrow> string \<times> string" where
  "kind_content d = (Type d, Content d)"

text \<open>The line number a record carries: one more than the number of unchanged and
  added records before it.\<close>

definition counted :: "DiffLine list \<Rightarrow> int" where
  "counted ds = 1 + int (length (filter (\<lambda>d. Type d \<noteq> ''removed'') ds))"

definition line_numbers :: "DiffLine list \<Rightarrow> int list" where
  "line_numbers ds = map (\<lambda>k. counted (take k ds)) [0..<length ds]"

lemma counted_snoc:
  "counted (d @ [x]) = counted d + (if Type x \<noteq> ''removed'' then 1 else 0)"
  by (simp add: counted_def)

lemma line_numbers_snoc: "line_numbers (d @ [x]) = line_numbers d @ [counted d]"
  by (simp add: line_numbers_def)

lemma counted_snoc2:
  "counted (d @ [x, y]) =
     counted d + (if Type x \<noteq> ''removed'' then 1 else 0)
               + (if Type y \<noteq> ''removed'' then 1 else 0)"
  by (simp add: counted_def)

lemma line_numbers_snoc2:
  "line_numbers (d @ [x, y]) = line_numbers d @ [counted d, counted (d @ [x])]"
  using line_numbers_snoc [of "d @ [x]" y] by (simp add: line_numbers_snoc)

lemma diff_step_kinds:
  "diff_step ol nl i (n, d) = (n', d') \<Longrightarrow>
   map kind_content d' = map kind_content d @ records_at ol nl i"
  unfolding diff_step_def records_at_def line_at_def kind_content_def Let_def
  by (auto split: if_splits)

lemma diff_step_numbers:
  "diff_step ol nl i (n, d) = (n', d') \<Longrightarrow> map LineNum d = line_numbers d \<Longrightarrow>
   n = counted d \<Longrightarrow> map LineNum d' = line_numbers d' \<and> n' = counted d'"
  unfolding diff_step_def Let_def
  by (auto split: if_splits
      simp: counted_snoc line_numbers_snoc counted_snoc2 line_numbers_snoc2)

lemma diff_fold_invariant:
  "fold (diff_step ol nl) [0..<k] (1, []) = (n, d) \<Longrightarrow>
   map kind_content d = concat (map (records_at ol nl) [0..<k]) \<and>
   map LineNum d = line_numbers d \<and> n = counted d"
proof (induction k arbitrary: n d)
  case 0
  then show ?case by (auto simp: line_numbers_def counted_def)
next
  case (Suc k)
  obtain n0 d0 where f: "fold (diff_step ol nl) [0..<k] (1, []) = (n0, d0)"
    by (cases "fold (diff_step ol nl) [0..<k] (1, [])")
  from Suc.prems f have s: "diff_step ol nl k (n0, d0) = (n, d)" by simp
  note ih = Suc.IH [OF f]
  have "map kind_content d = concat (map (records_at ol nl) [0..<Suc k])"
    using diff_step_kinds [OF s] ih by simp
  moreover have "map LineNum d = line_numbers d \<and> n = counted d"
    using diff_step_numbers [OF s] ih by simp
  ultimately show ?case by simp
qed

lemma GenerateContentDiff_example:
  "GenerateContentDiff ''a\<newline>b\<newline>c'' ''a\<newline>x\<newline>c'' =
     [\<lparr>Type = ''unchanged'', Content = ''a'', LineNum = 1\<rparr>,
      \<lparr>Type = ''removed'', Content = ''b'', LineNum = 2\<rparr>,
      \<lparr>Type = ''added'', Content = ''x'', LineNum = 2\<rparr>,
      \<lparr>Type = ''unchanged'', Content = ''c'', LineNum = 3\<rparr>]"
  by code_simp

text \<open>
  Claim C6. \<^verbatim>\<open>GenerateContentDiff\<close> is a positional line diff. Both bodies are split on
  newline and walked in lockstep up to the longer length. The records of the result, in
  order, are those of the indices \<open>0, 1, ...\<close>: one unchanged record where the two lines
  (empty past the end of a body) are equal, and otherwise a removed record for a non-empty
  old line followed by an added record for a non-empty new line. Every record carries as
  its line number one more than the number of unchanged and added records before it. For
  the bodies \<^verbatim>\<open>"a\nb\nc"\<close> and \<^verbatim>\<open>"a\nx\nc"\<close> the result is an unchanged \<^verbatim>\<open>a\<close>, a removed
  \<^verbatim>\<open>b\<close> and an added \<^verbatim>\<open>x\<close> at line 2, and an unchanged \<^verbatim>\<open>c\<close>.
\<close>

theorem GenerateContentDiff_positional:
  "map kind_content (GenerateContentDiff old new) =
     concat (map (records_at (Split_newline old) (Split_newline new))
       [0..<max (length (Split_newline old)) (length (Split_newline new))])
   \<and> map LineNum (GenerateContentDiff old new) = line_numbers (GenerateContentDiff old new)
   \<and> map kind_content (GenerateContentDiff ''a\<newline>b\<newline>c'' ''a\<newline>x\<newline>c'') =
       [(''unchanged'', ''a''), (''removed'', ''b''), (''added'', ''x''), (''unchanged'', ''c'')]
   \<and> map LineNum (GenerateContentDiff ''a\<newline>b\<newline>c'' ''a\<newline>x\<newline>c'') = [1, 2, 2, 3]"
proof -
  define ol where "ol = Split_newline old"
  define nl where "nl = Split_newline new"
  have m: "(if length nl > length ol then length nl else length ol) = max (length ol) (length nl)"
    by simp
  obtain n d where f: "fold (diff_step ol nl) [0..<max (length ol) (length nl)] (1, []) = (n, d)"
    by (cases "fold (diff_step ol nl) [0..<max (length ol) (length nl)] (1, [])")
  have g: "GenerateContentDiff old new = d"
    unfolding GenerateContentDiff_def Let_def ol_def [symmetric] nl_def [symmetric] m f by simp
  show ?thesis
    using diff_fold_invariant [OF f]
    unfolding g ol_def nl_def
    by (simp add: GenerateContentDiff_example kind_content_def)
qed

section \<open>Wiki links (ExtractNoteLinks)\<close>

text \<open>
  The regular expression \<^verbatim>\<open>\[\[([^\]]+)\]\]\<close> matches two opening brackets, a non-empty
  run of bytes other than the closing bracket, and two closing brackets. The run is
  greedy, and the byte after it must be a closing bracket, so at a given start the match
  takes the whole run up to the first closing bracket. \<^verbatim>\<open>match_link_here\<close> is the match
  anchored at the head of the text: the captured group and the text after the match.
\<close>

definition match_link_here :: "string \<Rightarrow> (string \<times> string) option" where
  "match_link_here s =
     (case s of
        a # b # r \<Rightarrow>
          if a = CHR ''['' \<and> b = CHR ''['' then
            (let title = takeWhile (\<lambda>c. c \<noteq> CHR '']'') r;
                 rest = dropWhile (\<lambda>c. c \<noteq> CHR '']'') r
             in (case rest of
                   x # y # rest' \<Rightarrow>
                     if title \<noteq> [] \<and> x = CHR '']'' \<and> y = CHR '']''
                     then Some (title, rest') else None
                 | _ \<Rightarrow> None))
          else None
      | _ \<Rightarrow> None)"

lemma match_link_here_shorter:
  "match_link_here s = Some (title, rest) \<Longrightarrow> length rest < length s"
proof -
  assume m: "match_link_here s = Some (title, rest)"
  then obtain a b r where s: "s = a # b # r"
    by (auto simp: match_link_here_def split: list.splits)
  from m s obtain x y where d: "dropWhile (\<lambda>c. c \<noteq> CHR '']'') r = x # y # rest"
    by (auto simp: match_link_here_def Let_def split: list.splits if_splits)
  have "length (dropWhile (\<lambda>c. c \<noteq> CHR '']'') r) \<le> length r"
    by (rule length_dropWhile_le)
  with d s show ?thesis by simp
qed

text \<open>\<^verbatim>\<open>re.FindAllStringSubmatch(content, -1)\<close>, reduced to the captured group of
  every match: the successive leftmost matches, each search starting where the match
  before it ended.\<close>

function FindAllStringSubmatch :: "string \<Rightarrow> string list" where
  "FindAllStringSubmatch [] = []"
| "FindAllStringSubmatch (c # cs) =
     (case match_link_here (c # cs) of
        Some (title, rest) \<Rightarrow> title # FindAllStringSubmatch rest
      | None \<Rightarrow> FindAllStringSubmatch cs)"
  by pat_completeness auto
termination
proof (relation "measure length")
  show "wf (measure length)" by simp
next
  fix c cs x2 x y
  assume "match_link_here (c # cs) = Some x2" "(x, y) = x2"
  then show "(y, c # cs) \<in> measure length"
    using match_link_here_shorter [of "c # cs" x y] by simp
next
  fix c :: char and cs
  show "(cs, c # cs) \<in> measure length" by simp
qed

text \<open>The loop over the matches, with the variables \<^verbatim>\<open>links\<close> and \<^verbatim>\<open>seen\<close>
  (the keys of the map).\<close>

fun links_loop :: "string list \<Rightarrow> string list \<Rightarrow> string set \<Rightarrow> string list" where
  "links_loop [] links seen = links"
| "links_loop (title # matches) links seen =
     (if title \<notin> seen then links_loop matches (links @ [title]) (insert title seen)
      else links_loop matches links seen)"

definition ExtractNoteLinks :: "string \<Rightarrow> string list" where
  "ExtractNoteLinks content = links_loop (FindAllStringSubmatch content) [] {}"

text \<open>The reading of the claim: \<open>title\<close> is the inner text of an occurrence
  \<^verbatim>\<open>[[title]]\<close> in \<open>s\<close>.\<close>

definition is_link_of :: "string \<Rightarrow> string \<Rightarrow> bool" where
  "is_link_of s title =
     (title \<noteq> [] \<and> CHR '']'' \<notin> set title \<and> sublist (''[['' @ title @ '']]'') s)"

lemma remdups_snoc: "remdups (ys @ [x]) = filter (\<lambda>y. y \<noteq> x) (remdups ys) @ [x]"
  by (induction ys) auto

lemma first_occurrences_Cons:
  "rev (remdups (rev (x # xs))) = x # filter (\<lambda>y. y \<noteq> x) (rev (remdups (rev xs)))"
  by (simp add: remdups_snoc rev_filter)

lemma links_loop_first_occurrences:
  "links_loop ms links (set links) =
     links @ filter (\<lambda>t. t \<notin> set links) (rev (remdups (rev ms)))"
proof (induction ms arbitrary: links)
  case Nil
  then show ?case by simp
next
  case (Cons t ms)
  show ?case
  proof (cases "t \<in> set links")
    case True
    then have "filter (\<lambda>y. y \<notin> set links) (filter (\<lambda>y. y \<noteq> t) (rev (remdups (rev ms))))
             = filter (\<lambda>y. y \<notin> set links) (rev (remdups (rev ms)))"
      by (auto intro: filter_cong)
    with True Cons.IH [of links] show ?thesis
      by (simp only: first_occurrences_Cons links_loop.simps) simp
  next
    case False
    have s: "insert t (set links) = set (links @ [t])" by simp
    have "filter (\<lambda>y. y \<notin> set (links @ [t])) (rev (remdups (rev ms)))
        = filter (\<lambda>y. y \<notin> set links) (filter (\<lambda>y. y \<noteq> t) (rev (remdups (rev ms))))"
      by (auto intro: filter_cong)
    with False Cons.IH [of "links @ [t]"] show ?thesis
      by (simp only: first_occurrences_Cons links_loop.simps s) simp
  qed
qed

lemma match_link_here_Some:
  "match_link_here s = Some (title, rest) \<Longrightarrow>
   s = ''[['' @ title @ '']]'' @ rest \<and> title \<noteq> [] \<and> CHR '']'' \<notin> set title"
proof -
  assume m: "match_link_here s = Some (title, rest)"
  then obtain r where s: "s = CHR ''['' # CHR ''['' # r"
    by (auto simp: match_link_here_def split: list.splits if_splits)
  from m s have d: "dropWhile (\<lambda>c. c \<noteq> CHR '']'') r = CHR '']'' # CHR '']'' # rest"
    and t: "title = takeWhile (\<lambda>c. c \<noteq> CHR '']'') r" and n: "title \<noteq> []"
    by (auto simp: match_link_here_def Let_def split: list.splits if_splits)
  have "r = takeWhile (\<lambda>c. c \<noteq> CHR '']'') r @ dropWhile (\<lambda>c. c \<noteq> CHR '']'') r"
    by simp
  then have "r = title @ CHR '']'' # CHR '']'' # rest" using d t by simp
  moreover have "CHR '']'' \<notin> set title"
    unfolding t using set_takeWhileD by fastforce
  ultimately show ?thesis using s n by simp
qed

lemma is_link_of_Cons: "is_link_of s t \<Longrightarrow> is_link_of (c # s) t"
  by (auto simp: is_link_of_def sublist_Cons_right)

lemma is_link_of_append: "is_link_of s t \<Longrightarrow> is_link_of (p @ s) t"
  by (induction p) (auto simp: is_link_of_Cons)

lemma FindAllStringSubmatch_sound: "list_all (is_link_of s) (FindAllStringSubmatch s)"
proof (induction s rule: FindAllStringSubmatch.induct)
  case 1
  then show ?case by simp
next
  case (2 c cs)
  show ?case
  proof (cases "match_link_here (c # cs)")
    case None
    from 2(1) [OF None] have "list_all (is_link_of cs) (FindAllStringSubmatch cs)" .
    then have "list_all (is_link_of (c # cs)) (FindAllStringSubmatch cs)"
      by (auto simp: list_all_iff is_link_of_Cons)
    with None show ?thesis by simp
  next
    case (Some p)
    obtain title rest where p: "p = (title, rest)" by (cases p)
    note m = match_link_here_Some [OF Some [unfolded p]]
    from 2(2) [OF Some p [symmetric]]
    have "list_all (is_link_of rest) (FindAllStringSubmatch rest)" .
    then have "list_all (is_link_of ((''[['' @ title @ '']]'') @ rest)) (FindAllStringSubmatch rest)"
      using is_link_of_append [of rest _ "''[['' @ title @ '']]''"]
      unfolding list_all_iff by blast
    then have "list_all (is_link_of (c # cs)) (FindAllStringSubmatch rest)"
      using m by simp
    moreover have "is_link_of (c # cs) title"
    proof -
      have "sublist (''[['' @ title @ '']]'') ([] @ (''[['' @ title @ '']]'') @ rest)"
        by (rule sublist_appendI)
      then show ?thesis using m unfolding is_link_of_def by simp
    qed
    ultimately show ?thesis using Some p by simp
  qed
qed

lemma FindAllStringSubmatch_complete:
  "CHR ''['' \<notin> set pre \<Longrightarrow> title \<noteq> [] \<Longrightarrow> CHR '']'' \<notin> set title \<Longrightarrow>
   FindAllStringSubmatch (pre @ ''[['' @ title @ '']]'' @ post) =
     title # FindAllStringSubmatch post"
proof (induction pre)
  case Nil
  have n: "\<And>x. x \<in> set title \<Longrightarrow> x \<noteq> CHR '']''" using Nil by auto
  have t: "takeWhile (\<lambda>c. c \<noteq> CHR '']'') (title @ '']]'' @ post) = title"
    using n by simp
  have d: "dropWhile (\<lambda>c. c \<noteq> CHR '']'') (title @ '']]'' @ post) = '']]'' @ post"
    using n by simp
  have "match_link_here (''[['' @ title @ '']]'' @ post) = Some (title, post)"
    using Nil t d by (simp add: match_link_here_def Let_def)
  then show ?case by simp
next
  case (Cons c pre)
  then have "c \<noteq> CHR ''[''" by auto
  then have "match_link_here (c # (pre @ ''[['' @ title @ '']]'' @ post)) = None"
    unfolding match_link_here_def by (simp split: list.split)
  with Cons show ?case by simp
qed

text \<open>
  Claim C5. \<^verbatim>\<open>ExtractNoteLinks\<close> returns the inner texts of the \<^verbatim>\<open>[[...]]\<close> matches of
  its input in the order of their first occurrence, each once: duplicates are collapsed
  by equality of strings and nothing is changed in a text, so \<^verbatim>\<open>Foo\<close> and \<^verbatim>\<open>foo\<close> stay
  apart. Every text returned is the inner text of an occurrence in the input, and an
  occurrence that follows a prefix without an opening bracket is the first match. For
  \<^verbatim>\<open>"See [[Alpha]] and [[Beta]] and [[Alpha]]"\<close> the result is \<^verbatim>\<open>["Alpha", "Beta"]\<close>.
\<close>

theorem ExtractNoteLinks_first_occurrences:
  "ExtractNoteLinks s = rev (remdups (rev (FindAllStringSubmatch s)))
   \<and> distinct (ExtractNoteLinks s)
   \<and> set (ExtractNoteLinks s) = set (FindAllStringSubmatch s)
   \<and> list_all (is_link_of s) (ExtractNoteLinks s)
   \<and> (CHR ''['' \<notin> set pre \<and> title \<noteq> [] \<and> CHR '']'' \<notin> set title \<longrightarrow>
        FindAllStringSubmatch (pre @ ''[['' @ title @ '']]'' @ post) =
          title # FindAllStringSubmatch post)
   \<and> ExtractNoteLinks ''See [[Alpha]] and [[Beta]] and [[Alpha]]'' = [''Alpha'', ''Beta'']
   \<and> ExtractNoteLinks ''[[Foo]] and [[foo]]'' = [''Foo'', ''foo'']"
proof -
  have e: "ExtractNoteLinks s = rev (remdups (rev (FindAllStringSubmatch s)))"
    using links_loop_first_occurrences [of "FindAllStringSubmatch s" "[]"]
    by (simp add: ExtractNoteLinks_def)
  have d: "distinct (ExtractNoteLinks s)" unfolding e by simp
  have m: "set (ExtractNoteLinks s) = set (FindAllStringSubmatch s)" unfolding e by simp
  have l: "list_all (is_link_of s) (ExtractNoteLinks s)"
    using FindAllStringSubmatch_sound [of s] m unfolding list_all_iff by simp
  have x1: "ExtractNoteLinks ''See [[Alpha]] and [[Beta]] and [[Alpha]]'' = [''Alpha'', ''Beta'']"
    by code_simp
  have x2: "ExtractNoteLinks ''[[Foo]] and [[foo]]'' = [''Foo'', ''foo'']"
    by code_simp
  show ?thesis
    using e d m l x1 x2 FindAllStringSubmatch_complete [of pre title post] by blast
qed

theorem ExtractNoteLinks_first_occurrences_witness:
  "CHR ''['' \<notin> set ''see '' \<and> ''Alpha'' \<noteq> [] \<and> CHR '']'' \<notin> set ''Alpha''
   \<and> FindAllStringSubmatch (''see '' @ ''[['' @ ''Alpha'' @ '']]'' @ '' now'') =
       ''Alpha'' # FindAllStringSubmatch '' now''
   \<and> ExtractNoteLinks ''see [[Alpha]] now'' = [''Alpha'']"
proof -
  have h: "CHR ''['' \<notin> set ''see '' \<and> ''Alpha'' \<noteq> [] \<and> CHR '']'' \<notin> set ''Alpha''"
    by simp
  have x: "ExtractNoteLinks ''see [[Alpha]] now'' = [''Alpha'']" by code_simp
  from ExtractNoteLinks_first_occurrences [of "''see [[Alpha]] now''" "''see ''" "''Alpha''" "'' now''"]
  have "CHR ''['' \<notin> set ''see '' \<and> ''Alpha'' \<noteq> [] \<and> CHR '']'' \<notin> set ''Alpha'' \<longrightarrow>
        FindAllStringSubmatch (''see '' @ ''[['' @ ''Alpha'' @ '']]'' @ '' now'') =
          ''Alpha'' # FindAllStringSubmatch '' now''"
    by blast
  with h x show ?thesis by blast
qed

section \<open>Semantic search (Service.Search)\<close>

text \<open>
  \<^verbatim>\<open>strings.TrimSpace\<close> removes the leading and the trailing white space of a string,
  as \<^verbatim>\<open>unicode.IsSpace\<close> defines it. \<^verbatim>\<open>space_encodings\<close> lists the UTF-8 encodings of
  these code points: the six ASCII ones, U+0085, U+00A0, U+1680, U+2000 to U+200A, U+2028,
  U+2029, U+202F, U+205F and U+3000.
\<close>

definition space_encodings :: "string list" where
  "space_encodings =
     [[CHR 0x09], [CHR 0x0A], [CHR 0x0B], [CHR 0x0C], [CHR 0x0D], [CHR 0x20],
      [CHR 0xC2, CHR 0x85], [CHR 0xC2, CHR 0xA0],
      [CHR 0xE1, CHR 0x9A, CHR 0x80],
      [CHR 0xE2, CHR 0x80, CHR 0x80], [CHR 0xE2, CHR 0x80, CHR 0x81],
      [CHR 0xE2, CHR 0x80, CHR 0x82], [CHR 0xE2, CHR 0x80, CHR 0x83],
      [CHR 0xE2, CHR 0x80, CHR 0x84], [CHR 0xE2, CHR 0x80, CHR 0x85],
      [CHR 0xE2, CHR 0x80, CHR 0x86], [CHR 0xE2, CHR 0x80, CHR 0x87],
      [CHR 0xE2, CHR 0x80, CHR 0x88], [CHR 0xE2, CHR 0x80, CHR 0x89],
      [CHR 0xE2, CHR 0x80, CHR 0x8A],
      [CHR 0xE2, CHR 0x80, CHR 0xA8], [CHR 0xE2, CHR 0x80, CHR 0xA9],
      [CHR 0xE2, CHR 0x80, CHR 0xAF], [CHR 0xE2, CHR 0x81, CHR 0x9F],
      [CHR 0xE3, CHR 0x80, CHR 0x80]]"

definition leading_space :: "string \<Rightarrow> nat" where
  "leading_space s =
     (case find (\<lambda>e. prefix e s) space_encodings of None \<Rightarrow> 0 | Some e \<Rightarrow> length e)"

definition trailing_space :: "string \<Rightarrow> nat" where
  "trailing_space s =
     (case find (\<lambda>e. suffix e s) space_encodings of None \<Rightarrow> 0 | Some e \<Rightarrow> length e)"

lemma leading_space_le: "leading_space s \<le> length s"
  unfolding leading_space_def
  by (auto split: option.splits dest!: find_Some_iff [THEN iffD1] prefix_length_le)

lemma trailing_space_le: "trailing_space s \<le> length s"
  unfolding trailing_space_def
  by (auto split: option.splits dest!: find_Some_iff [THEN iffD1] suffix_length_le)

function TrimLeft :: "string \<Rightarrow> string" where
  "TrimLeft s = (if leading_space s = 0 then s else TrimLeft (drop (leading_space s) s))"
  by pat_completeness auto
termination
proof (relation "measure length")
  show "wf (measure length)" by simp
next
  fix s assume "leading_space s \<noteq> 0"
  then show "(drop (leading_space s) s, s) \<in> measure length"
    using leading_space_le [of s] by simp
qed

function TrimRight :: "string \<Rightarrow> string" where
  "TrimRight s =
     (if trailing_space s = 0 then s else TrimRight (take (length s - trailing_space s) s))"
  by pat_completeness auto
termination
proof (relation "measure length")
  show "wf (measure length)" by simp
next
  fix s assume "trailing_space s \<noteq> 0"
  then show "(take (length s - trailing_space s) s, s) \<in> measure length"
    using trailing_space_le [of s] by simp
qed

declare TrimLeft.simps [simp del] TrimRight.simps [simp del]

definition TrimSpace :: "string \<Rightarrow> string" where
  "TrimSpace s = TrimRight (TrimLeft s)"

text \<open>
  The payload of a point of the vector index maps a key to a pointer to a
  \<^verbatim>\<open>qdrant.Value\<close>; \<^verbatim>\<open>GetStringValue\<close> is the string a value holds, and the empty
  string for a value of another kind. A lookup is \<open>None\<close> for a missing key and
  \<open>Some None\<close> for a nil pointer.
\<close>

datatype Value = StringValue string | OtherValue

fun GetStringValue :: "Value \<Rightarrow> string" where
  "GetStringValue (StringValue s) = s"
| "GetStringValue OtherValue = []"

type_synonym payload = "string \<Rightarrow> Value option option"

record 'f ScoredPoint =
  Score :: 'f
  Scored_Payload :: payload

record SearchRequest =
  Query :: string
  Limit :: int

record 'f SearchResult =
  Result_NoteID :: string
  Result_Title :: string
  Result_Score :: 'f

record 'f SearchResponse =
  Results :: "'f SearchResult list"
  Response_Query :: string

definition payload_string :: "payload \<Rightarrow> string \<Rightarrow> string" where
  "payload_string pl key =
     (case pl key of
        Some (Some v) \<Rightarrow> GetStringValue v
      | _ \<Rightarrow> [])"

text \<open>The loop over the hits: a nil point is skipped; the note id and the title stay
  empty unless the payload holds a non-empty string for them.\<close>

fun search_results :: "'f ScoredPoint option list \<Rightarrow> 'f SearchResult list" where
  "search_results [] = []"
| "search_results (None # results) = search_results results"
| "search_results (Some point # results) =
     \<lparr>Result_NoteID = payload_string (Scored_Payload point) ''note_id'',
      Result_Title = payload_string (Scored_Payload point) ''title'',
      Result_Score = Score point\<rparr> # search_results results"

text \<open>\<^verbatim>\<open>Service.Search\<close>, over the two interfaces it calls:
  \<^verbatim>\<open>embeddingService.Generate\<close> and \<^verbatim>\<open>vectorStore.SearchWithFilter\<close>.\<close>

definition Search ::
  "(string \<Rightarrow> error + 'v) \<Rightarrow> ('v \<Rightarrow> string \<Rightarrow> int \<Rightarrow> error + 'f ScoredPoint option list) \<Rightarrow>
   string \<Rightarrow> SearchRequest \<Rightarrow> error + 'f SearchResponse" where
  "Search Generate SearchWithFilter userID req =
     (if Query req = [] then Inl (Errorf ''query is required'')
      else
        (let queryLen = int (length (TrimSpace (Query req)))
         in if queryLen < 2 then Inl (Errorf ''query must be at least 2 characters long'')
            else if queryLen > 50 then Inl (Errorf ''query must be at most 50 characters long'')
            else
              (let limit1 = (if Limit req \<le> 0 then 10 else Limit req);
                   limit2 = (if limit1 > 50 then 50 else limit1)
               in case Generate (Query req) of
                    Inl err \<Rightarrow> Inl (Wrapf ''failed to generate query embedding'' err)
                  | Inr vector \<Rightarrow>
                      (case SearchWithFilter vector userID limit2 of
                         Inl err \<Rightarrow> Inl (Wrapf ''failed to search'' err)
                       | Inr results \<Rightarrow>
                           Inr \<lparr>Results = search_results results,
                                Response_Query = Query req\<rparr>))))"

text \<open>The errors of \<^verbatim>\<open>Search\<close> that reject the query: the validation errors.\<close>

definition is_validation_error :: "error \<Rightarrow> bool" where
  "is_validation_error e =
     (e = Errorf ''query is required'' \<or>
      e = Errorf ''query must be at least 2 characters long'' \<or>
      e = Errorf ''query must be at most 50 characters long'')"

text \<open>The number of characters of a well-formed UTF-8 string
  (\<^verbatim>\<open>utf8.RuneCountInString\<close>): the bytes that are not continuation bytes.\<close>

definition RuneCountInString :: "string \<Rightarrow> nat" where
  "RuneCountInString s =
     length (filter (\<lambda>c. \<not> (0x80 \<le> (of_char c :: nat) \<and> (of_char c :: nat) < 0xC0)) s)"

lemma Search_validation_iff:
  "(\<exists>e. Search Generate SearchWithFilter userID req = Inl e \<and> is_validation_error e) \<longleftrightarrow>
   (length (TrimSpace (Query req)) < 2 \<or> 50 < length (TrimSpace (Query req)))"
proof -
  have e: "Query req = [] \<Longrightarrow> length (TrimSpace (Query req)) < 2"
    by (simp add: TrimSpace_def TrimLeft.simps TrimRight.simps leading_space_def
        trailing_space_def space_encodings_def)
  show ?thesis
    using e unfolding Search_def Let_def is_validation_error_def
    by (auto split: sum.splits)
qed

text \<open>Two queries outside ASCII, the letter e-acute (U+00E9) once and the letter
  s-cedilla (U+015F) 26 times, and a search that finds nothing.\<close>

definition e_acute :: string where
  "e_acute = [CHR 0xC3, CHR 0xA9]"

definition s_cedilla_26 :: string where
  "s_cedilla_26 = concat (replicate 26 [CHR 0xC5, CHR 0x9F])"

definition example_Generate :: "string \<Rightarrow> error + nat" where
  "example_Generate text = Inr 0"

definition example_SearchWithFilter ::
  "nat \<Rightarrow> string \<Rightarrow> int \<Rightarrow> error + nat ScoredPoint option list" where
  "example_SearchWithFilter vector userID limit = Inr []"

lemma TrimSpace_examples:
  "TrimSpace e_acute = e_acute" "TrimSpace s_cedilla_26 = s_cedilla_26"
  by code_simp+

text \<open>
  Claim C4. \<^verbatim>\<open>Search\<close> rejects a query exactly when the length of the trimmed query is
  outside \<open>[2, 50]\<close>, where the length is \<^verbatim>\<open>len\<close>, a number of bytes. For a query in
  ASCII this is the number of characters the claim, the comment of the source and its
  error messages speak of. It is not for other queries: the one-character query
  e-acute has two bytes and passes the validation, and the 26-character query of
  s-cedillas has 52 bytes and is rejected as longer than 50 characters.
\<close>

theorem Search_validates_byte_length:
  "((\<exists>e. Search Generate SearchWithFilter userID req = Inl e \<and> is_validation_error e) \<longleftrightarrow>
      (length (TrimSpace (Query req)) < 2 \<or> 50 < length (TrimSpace (Query req))))
   \<and> RuneCountInString (TrimSpace e_acute) = 1
   \<and> Search example_Generate example_SearchWithFilter ''user'' \<lparr>Query = e_acute, Limit = 0\<rparr> =
       Inr \<lparr>Results = [], Response_Query = e_acute\<rparr>
   \<and> RuneCountInString (TrimSpace s_cedilla_26) = 26
   \<and> Search example_Generate example_SearchWithFilter ''user''
         \<lparr>Query = s_cedilla_26, Limit = 0\<rparr> =
       Inl (Errorf ''query must be at most 50 characters long'')"
proof -
  have a: "RuneCountInString (TrimSpace e_acute) = 1"
    unfolding TrimSpace_examples by code_simp
  have b: "Search example_Generate example_SearchWithFilter ''user''
             \<lparr>Query = e_acute, Limit = 0\<rparr> = Inr \<lparr>Results = [], Response_Query = e_acute\<rparr>"
    unfolding Search_def Let_def by (simp add: TrimSpace_examples)
      (simp add: e_acute_def example_Generate_def example_SearchWithFilter_def)
  have c: "RuneCountInString (TrimSpace s_cedilla_26) = 26"
    unfolding TrimSpace_examples by code_simp
  have l: "length s_cedilla_26 = 52" by code_simp
  have n: "s_cedilla_26 \<noteq> []" using l by auto
  have d: "Search example_Generate example_SearchWithFilter ''user''
             \<lparr>Query = s_cedilla_26, Limit = 0\<rparr> =
           Inl (Errorf ''query must be at most 50 characters long'')"
    unfolding Search_def Let_def by (simp add: TrimSpace_examples l n)
  show ?thesis
    using Search_validation_iff [of Generate SearchWithFilter userID req] a b c d by blast
qed


section \<open>Notes and tags (note.go)\<close>

record Note =
  ID :: string
  UserID :: string
  Title :: string
  ContentMd :: string
  SourceURL :: "string option"
  IsPublic :: bool
  PublicSlug :: "string option"
  ViewCount :: int
  Tags :: "string list"

record Tag =
  Tag_ID :: string
  Tag_UserID :: string
  Tag_Name :: string

section \<open>Listing notes (Service.ListNotes)\<close>

record ListNotesRequest =
  Page :: int
  PerPage :: int
  Request_Tags :: "string list"
  Request_Search :: string

record ListNotesResponse =
  Notes :: "Note list"
  Total :: int
  Response_Page :: int
  Response_PerPage :: int
  TotalPages :: int

text \<open>The loop that attaches its tags to every note of the page; the first error of
  \<^verbatim>\<open>GetNoteTags\<close> ends it.\<close>

fun attach_tags :: "(string \<Rightarrow> error + string list) \<Rightarrow> Note list \<Rightarrow> error + Note list" where
  "attach_tags GetNoteTags [] = Inr []"
| "attach_tags GetNoteTags (n # ns) =
     (case GetNoteTags (ID n) of
        Inl err \<Rightarrow> Inl (Wrapf ''failed to get note tags'' err)
      | Inr tags \<Rightarrow>
          (case attach_tags GetNoteTags ns of
             Inl err \<Rightarrow> Inl err
           | Inr ns' \<Rightarrow> Inr (n\<lparr>Tags := tags\<rparr> # ns')))"

text \<open>
  \<^verbatim>\<open>int(math.Ceil(float64(total) / float64(perPage)))\<close>. For a divisor other than zero
  and operands below \<open>2^53\<close> in absolute value the two conversions are exact and the
  rounded quotient has the ceiling of the exact one, so the result is the ceiling of the
  quotient. For the divisor zero the quotient is an infinity or not a number, and Go
  leaves its conversion to \<^verbatim>\<open>int\<close> to the implementation: \<open>None\<close>.
\<close>

definition ceil_quotient :: "int \<Rightarrow> int \<Rightarrow> int option" where
  "ceil_quotient count perPage =
     (if perPage = 0 then None else Some \<lceil>real_of_int count / real_of_int perPage\<rceil>)"

text \<open>\<^verbatim>\<open>Service.ListNotes\<close>, over the fields \<^verbatim>\<open>defaultPageSize\<close> and \<^verbatim>\<open>maxPageSize\<close>
  of the service and the three repository methods it calls.\<close>

definition ListNotes ::
  "int \<Rightarrow> int \<Rightarrow>
   (string \<Rightarrow> string list \<Rightarrow> error + Tag list) \<Rightarrow>
   (string \<Rightarrow> int \<Rightarrow> int \<Rightarrow> string list \<Rightarrow> string \<Rightarrow> error + Note list \<times> int) \<Rightarrow>
   (string \<Rightarrow> error + string list) \<Rightarrow>
   string \<Rightarrow> ListNotesRequest \<Rightarrow> error + ListNotesResponse" where
  "ListNotes defaultPageSize maxPageSize FindByNames List GetNoteTags userID req =
     (let page = (if Page req < 1 then 1 else Page req);
          perPage1 = (if PerPage req < 1 then defaultPageSize else PerPage req);
          perPage = (if perPage1 > maxPageSize then maxPageSize else perPage1)
      in case (if length (Request_Tags req) > 0
               then (case FindByNames userID (Request_Tags req) of
                       Inl err \<Rightarrow> Inl (Wrapf ''failed to find tags'' err)
                     | Inr tags \<Rightarrow> Inr (map Tag_ID tags))
               else Inr []) of
           Inl err \<Rightarrow> Inl err
         | Inr tagIDs \<Rightarrow>
             (case List userID page perPage tagIDs (Request_Search req) of
                Inl err \<Rightarrow> Inl err
              | Inr (notes, count) \<Rightarrow>
                  (case attach_tags GetNoteTags notes of
                     Inl err \<Rightarrow> Inl err
                   | Inr notes' \<Rightarrow>
                       (case ceil_quotient count perPage of
                          None \<Rightarrow> Inl ImplementationDefined
                        | Some totalPages \<Rightarrow>
                            Inr \<lparr>Notes = notes', Total = count, Response_Page = page,
                                 Response_PerPage = perPage, TotalPages = totalPages\<rparr>))))"

text \<open>The effective page size, as the claim reads it (a clamp between the default and
  the maximum) and as the code computes it.\<close>

definition clamped_perPage :: "int \<Rightarrow> int \<Rightarrow> int \<Rightarrow> int" where
  "clamped_perPage defaultPageSize maxPageSize perPage =
     min maxPageSize (max defaultPageSize perPage)"

definition effective_perPage :: "int \<Rightarrow> int \<Rightarrow> int \<Rightarrow> int" where
  "effective_perPage defaultPageSize maxPageSize perPage =
     min maxPageSize (if perPage < 1 then defaultPageSize else perPage)"

lemma ListNotes_Inr:
  assumes "ListNotes d m FindByNames List GetNoteTags userID req = Inr resp"
  shows "Response_Page resp = max 1 (Page req)"
    and "Response_PerPage resp = effective_perPage d m (PerPage req)"
    and "Response_PerPage resp \<noteq> 0"
    and "TotalPages resp = \<lceil>real_of_int (Total resp) / real_of_int (Response_PerPage resp)\<rceil>"
  using assms
  unfolding ListNotes_def Let_def ceil_quotient_def effective_perPage_def
  by (auto split: sum.splits if_splits option.splits prod.splits simp: max_def min_def)

lemma ListNotes_calls_List:
  assumes "ListNotes d m FindByNames List GetNoteTags userID req = Inr resp"
  shows "\<exists>tagIDs notes. List userID (max 1 (Page req)) (effective_perPage d m (PerPage req))
           tagIDs (Request_Search req) = Inr (notes, Total resp)"
proof -
  define page where "page = (if Page req < 1 then 1 else Page req)"
  define perPage where "perPage =
    (if (if PerPage req < 1 then d else PerPage req) > m then m
     else (if PerPage req < 1 then d else PerPage req))"
  have p: "page = max 1 (Page req)" by (simp add: page_def max_def)
  have q: "perPage = effective_perPage d m (PerPage req)"
    by (simp add: perPage_def effective_perPage_def min_def)
  from assms have "\<exists>tagIDs ns. List userID page perPage tagIDs (Request_Search req) =
      Inr (ns, Total resp)"
    unfolding ListNotes_def Let_def page_def [symmetric] perPage_def [symmetric]
    by (fastforce split: sum.splits prod.splits option.splits if_splits)
  then show ?thesis unfolding p q .
qed

lemma ListNotes_returns:
  assumes "0 < d" and "0 < m"
    and "Request_Tags req = [] \<or> (\<exists>tags. FindByNames userID (Request_Tags req) = Inr tags)"
    and "\<And>page perPage tagIDs. \<exists>r. List userID page perPage tagIDs (Request_Search req) = Inr r"
    and "\<And>n. \<exists>tags. GetNoteTags n = Inr tags"
  shows "\<exists>resp. ListNotes d m FindByNames List GetNoteTags userID req = Inr resp"
proof -
  have a: "\<exists>ns'. attach_tags GetNoteTags ns = Inr ns'" for ns
  proof (induction ns)
    case Nil
    then show ?case by simp
  next
    case (Cons n ns)
    then obtain ns' where "attach_tags GetNoteTags ns = Inr ns'" by blast
    moreover obtain tags where "GetNoteTags (ID n) = Inr tags" using assms(5) by blast
    ultimately show ?case by simp
  qed
  define page where "page = (if Page req < 1 then 1 else Page req)"
  define perPage where "perPage =
    (if (if PerPage req < 1 then d else PerPage req) > m then m
     else (if PerPage req < 1 then d else PerPage req))"
  have nz: "perPage \<noteq> 0" using assms(1,2) by (auto simp: perPage_def)
  obtain tagIDs where t: "(if length (Request_Tags req) > 0
               then (case FindByNames userID (Request_Tags req) of
                       Inl err \<Rightarrow> Inl (Wrapf ''failed to find tags'' err)
                     | Inr tags \<Rightarrow> Inr (map Tag_ID tags))
               else Inr []) = Inr tagIDs"
    using assms(3) by (cases "Request_Tags req = []") auto
  obtain ns c where l: "List userID page perPage tagIDs (Request_Search req) = Inr (ns, c)"
    using assms(4) [of page perPage tagIDs] by (metis surj_pair)
  obtain ns' where n: "attach_tags GetNoteTags ns = Inr ns'" using a by blast
  show ?thesis
    unfolding ListNotes_def Let_def page_def [symmetric] perPage_def [symmetric]
    using nz by (simp add: t l n ceil_quotient_def del: length_greater_0_conv)
qed

text \<open>Repositories of a user without tags and with 41 notes, none of them on the page
  asked for.\<close>

definition example_FindByNames :: "string \<Rightarrow> string list \<Rightarrow> error + Tag list" where
  "example_FindByNames userID names = Inr []"

definition example_List ::
  "string \<Rightarrow> int \<Rightarrow> int \<Rightarrow> string list \<Rightarrow> string \<Rightarrow> error + Note list \<times> int" where
  "example_List userID page perPage tagIDs search = Inr ([], 41)"

definition example_GetNoteTags :: "string \<Rightarrow> error + string list" where
  "example_GetNoteTags noteID = Inr []"

definition example_request :: ListNotesRequest where
  "example_request = \<lparr>Page = 0, PerPage = 5, Request_Tags = [], Request_Search = []\<rparr>"

lemma ListNotes_example:
  "ListNotes 20 100 example_FindByNames example_List example_GetNoteTags ''user'' example_request =
     Inr \<lparr>Notes = [], Total = 41, Response_Page = 1, Response_PerPage = 5, TotalPages = 9\<rparr>"
proof -
  have c: "\<lceil>(41::real) / 5\<rceil> = 9" by simp
  show ?thesis
    unfolding ListNotes_def Let_def example_request_def example_FindByNames_def
      example_List_def example_GetNoteTags_def ceil_quotient_def
    by (simp add: c)
qed

text \<open>
  Claim C9, as stated, has the page size clamped between the default and the maximum.
  With the default 20 and the maximum 100, a request for 5 notes a page is served with
  5 notes a page, where the clamp gives 20.
\<close>

theorem ListNotes_perPage_counterexample:
  "ListNotes 20 100 example_FindByNames example_List example_GetNoteTags ''user'' example_request =
     Inr \<lparr>Notes = [], Total = 41, Response_Page = 1, Response_PerPage = 5, TotalPages = 9\<rparr>
   \<and> clamped_perPage 20 100 (PerPage example_request) = 20"
  using ListNotes_example by (simp add: clamped_perPage_def example_request_def)

text \<open>
  Claim C9, amended. With page sizes the configuration accepts (both above zero), every
  response of \<^verbatim>\<open>ListNotes\<close> has the page of the request, or 1 for a page below 1; its
  page size is the one of the request, or the default for a size below 1, and the
  maximum when that is above the maximum; the notes and the total are those the
  repository gave for this page and this page size; and the page count is the ceiling
  of the total by the page size. The total and the maximum are taken below \<open>2^53\<close>,
  where the floating-point quotient of the source is the one of the model.
\<close>

theorem ListNotes_pagination:
  assumes "0 < defaultPageSize" and "0 < maxPageSize" and "maxPageSize < 2 ^ 53"
    and "ListNotes defaultPageSize maxPageSize FindByNames List GetNoteTags userID req = Inr resp"
    and "0 \<le> Total resp" and "Total resp < 2 ^ 53"
  shows "Response_Page resp = max 1 (Page req)
       \<and> Response_PerPage resp = effective_perPage defaultPageSize maxPageSize (PerPage req)
       \<and> 1 \<le> Response_PerPage resp \<and> Response_PerPage resp \<le> maxPageSize
       \<and> (\<exists>tagIDs ns. List userID (Response_Page resp) (Response_PerPage resp) tagIDs
              (Request_Search req) = Inr (ns, Total resp))
       \<and> TotalPages resp = \<lceil>real_of_int (Total resp) / real_of_int (Response_PerPage resp)\<rceil>"
proof -
  note r = ListNotes_Inr [OF assms(4)]
  have "1 \<le> effective_perPage defaultPageSize maxPageSize (PerPage req)"
    using assms(1,2) by (simp add: effective_perPage_def)
  moreover have "effective_perPage defaultPageSize maxPageSize (PerPage req) \<le> maxPageSize"
    by (simp add: effective_perPage_def)
  ultimately show ?thesis
    using r(1,2,4) ListNotes_calls_List [OF assms(4)] by simp
qed

theorem ListNotes_pagination_witness:
  "(0::int) < 20 \<and> (0::int) < 100 \<and> (100::int) < 2 ^ 53
   \<and> ListNotes 20 100 example_FindByNames example_List example_GetNoteTags ''user''
        example_request =
      Inr \<lparr>Notes = [], Total = 41, Response_Page = 1, Response_PerPage = 5, TotalPages = 9\<rparr>
   \<and> (1::int) = max 1 (Page example_request)
   \<and> (5::int) = effective_perPage 20 100 (PerPage example_request)
   \<and> (9::int) = \<lceil>real_of_int 41 / real_of_int 5\<rceil>"
proof -
  let ?resp = "\<lparr>Notes = [], Total = 41, Response_Page = 1, Response_PerPage = 5,
                 TotalPages = 9\<rparr>"
  have h: "(0::int) < 20" "(0::int) < 100" "(100::int) < 2 ^ 53"
    "(0::int) \<le> Total ?resp" "Total ?resp < 2 ^ 53"
    by simp_all
  from ListNotes_pagination [OF h(1,2,3) ListNotes_example h(4,5)]
  show ?thesis using ListNotes_example by simp
qed


section \<open>The vector space of a user (Service.GetVectorSpace)\<close>

text \<open>
  A \<^verbatim>\<open>qdrant.RetrievedPoint\<close> holds a pointer \<^verbatim>\<open>Vectors\<close> to a one-of that is a
  dense vector, or something else (named vectors, or nothing); \<^verbatim>\<open>GetVector\<close> is the
  dense vector, and nil for the other cases. The elements of the vectors are not read.
\<close>

datatype 'f Vectors = VectorsOptions_Vector "'f list" | VectorsOptions_Other

fun GetVector :: "'f Vectors \<Rightarrow> 'f list option" where
  "GetVector (VectorsOptions_Vector data) = Some data"
| "GetVector VectorsOptions_Other = None"

record 'f RetrievedPoint =
  Vectors :: "'f Vectors option"
  Payload :: payload

record 'f VectorPoint =
  Point_NoteID :: string
  Point_Title :: string
  Point_Vector :: "'f list"
  Point_Tags :: "string list"

record 'f VectorSpaceResponse =
  Points :: "'f VectorPoint list"
  Points_Total :: int

text \<open>The body of the loop for a point that is not skipped. The field
  \<^verbatim>\<open>CreatedAt\<close> is always the zero time and is left out.\<close>

definition vector_point ::
  "(string \<Rightarrow> error + string list) \<Rightarrow> 'f RetrievedPoint \<Rightarrow> 'f Vectors \<Rightarrow> 'f VectorPoint" where
  "vector_point GetNoteTags point vectors =
     (let vector = (case GetVector vectors of None \<Rightarrow> [] | Some data \<Rightarrow> data);
          noteID = (case Payload point ''note_id'' of
                      Some (Some v) \<Rightarrow> GetStringValue v | _ \<Rightarrow> []);
          title = (case Payload point ''title'' of
                     Some (Some v) \<Rightarrow> GetStringValue v | _ \<Rightarrow> []);
          tags = (if noteID \<noteq> []
                  then (case GetNoteTags noteID of Inr tags \<Rightarrow> tags | Inl err \<Rightarrow> [])
                  else [])
      in \<lparr>Point_NoteID = noteID, Point_Title = title, Point_Vector = vector,
          Point_Tags = tags\<rparr>)"

fun vector_points ::
  "(string \<Rightarrow> error + string list) \<Rightarrow> 'f RetrievedPoint option list \<Rightarrow> 'f VectorPoint list" where
  "vector_points GetNoteTags [] = []"
| "vector_points GetNoteTags (None # points) = vector_points GetNoteTags points"
| "vector_points GetNoteTags (Some point # points) =
     (case Vectors point of
        None \<Rightarrow> vector_points GetNoteTags points
      | Some vectors \<Rightarrow>
          vector_point GetNoteTags point vectors # vector_points GetNoteTags points)"

text \<open>\<^verbatim>\<open>Service.GetVectorSpace\<close>, over \<^verbatim>\<open>vectorStore.GetAllUserPoints\<close> and
  \<^verbatim>\<open>noteRepo.GetNoteTags\<close>.\<close>

definition GetVectorSpace ::
  "(string \<Rightarrow> int \<Rightarrow> error + 'f RetrievedPoint option list) \<Rightarrow>
   (string \<Rightarrow> error + string list) \<Rightarrow> string \<Rightarrow> int \<Rightarrow> error + 'f VectorSpaceResponse" where
  "GetVectorSpace GetAllUserPoints GetNoteTags userID limit =
     (let limit1 = (if limit \<le> 0 then 1000 else limit);
          limit2 = (if limit1 > 10000 then 10000 else limit1)
      in case GetAllUserPoints userID limit2 of
           Inl err \<Rightarrow> Inl (Wrapf ''failed to get user points'' err)
         | Inr points \<Rightarrow>
             (let vectorPoints = vector_points GetNoteTags points
              in Inr \<lparr>Points = vectorPoints, Points_Total = int (length vectorPoints)\<rparr>))"

text \<open>The two readings of "the point has a vector": the point holds a dense vector,
  and the pointer \<^verbatim>\<open>Vectors\<close> of the point is set.\<close>

definition has_vector :: "'f RetrievedPoint option \<Rightarrow> bool" where
  "has_vector p =
     (case p of
        None \<Rightarrow> False
      | Some point \<Rightarrow>
          (case Vectors point of None \<Rightarrow> False | Some vectors \<Rightarrow> GetVector vectors \<noteq> None))"

definition has_Vectors :: "'f RetrievedPoint option \<Rightarrow> bool" where
  "has_Vectors p = (case p of None \<Rightarrow> False | Some point \<Rightarrow> Vectors point \<noteq> None)"

definition included_point ::
  "(string \<Rightarrow> error + string list) \<Rightarrow> 'f RetrievedPoint option \<Rightarrow> 'f VectorPoint" where
  "included_point GetNoteTags p =
     vector_point GetNoteTags (the p) (the (Vectors (the p)))"

lemma has_Vectors_simps [simp]:
  "has_Vectors None = False"
  "has_Vectors (Some point) = (Vectors point \<noteq> None)"
  by (simp_all add: has_Vectors_def)

lemma vector_points_filter:
  "vector_points GetNoteTags points =
     map (included_point GetNoteTags) (filter has_Vectors points)"
proof (induction points)
  case Nil
  then show ?case by simp
next
  case (Cons p points)
  show ?case
  proof (cases p)
    case None
    with Cons show ?thesis by simp
  next
    case (Some point)
    with Cons show ?thesis
      by (cases "Vectors point") (simp_all add: included_point_def)
  qed
qed

lemma GetVectorSpace_Inr:
  assumes "GetVectorSpace GetAllUserPoints GetNoteTags userID limit = Inr resp"
  shows "\<exists>points.
           GetAllUserPoints userID (min 10000 (if limit \<le> 0 then 1000 else limit)) = Inr points \<and>
           Points resp = map (included_point GetNoteTags) (filter has_Vectors points) \<and>
           Points_Total resp = int (length (filter has_Vectors points)) \<and>
           Points_Total resp = int (length (Points resp))"
proof -
  define l where "l = (if (if limit \<le> 0 then 1000 else limit) > 10000 then 10000
                       else (if limit \<le> 0 then 1000 else limit))"
  have l: "l = min 10000 (if limit \<le> 0 then 1000 else limit)"
    by (simp add: l_def min_def)
  from assms obtain points where p: "GetAllUserPoints userID l = Inr points"
    and r: "resp = \<lparr>Points = vector_points GetNoteTags points,
                     Points_Total = int (length (vector_points GetNoteTags points))\<rparr>"
    unfolding GetVectorSpace_def Let_def l_def [symmetric]
    by (auto split: sum.splits)
  show ?thesis
    using p r unfolding l by (simp add: vector_points_filter)
qed

text \<open>A vector index with four entries for the user: a nil point, a point without
  \<^verbatim>\<open>Vectors\<close>, a point whose \<^verbatim>\<open>Vectors\<close> hold no dense vector (named vectors), and a
  point with the dense vector \<open>[1, 2]\<close>.\<close>

definition bare_point :: "nat RetrievedPoint" where
  "bare_point = \<lparr>Vectors = None, Payload = (\<lambda>key. None)\<rparr>"

definition named_point :: "nat RetrievedPoint" where
  "named_point = \<lparr>Vectors = Some VectorsOptions_Other, Payload = (\<lambda>key. None)\<rparr>"

definition dense_point :: "nat RetrievedPoint" where
  "dense_point = \<lparr>Vectors = Some (VectorsOptions_Vector [1, 2]), Payload = (\<lambda>key. None)\<rparr>"

definition example_GetAllUserPoints ::
  "string \<Rightarrow> int \<Rightarrow> error + nat RetrievedPoint option list" where
  "example_GetAllUserPoints userID limit =
     Inr [None, Some bare_point, Some named_point, Some dense_point]"

definition no_tags :: "string \<Rightarrow> error + string list" where
  "no_tags noteID = Inr []"

lemma GetVectorSpace_example:
  "GetVectorSpace example_GetAllUserPoints no_tags ''user'' 0 =
     Inr \<lparr>Points =
            [\<lparr>Point_NoteID = [], Point_Title = [], Point_Vector = [], Point_Tags = []\<rparr>,
             \<lparr>Point_NoteID = [], Point_Title = [], Point_Vector = [1, 2], Point_Tags = []\<rparr>],
          Points_Total = 2\<rparr>"
  unfolding GetVectorSpace_def Let_def example_GetAllUserPoints_def
  by (simp add: vector_point_def bare_point_def named_point_def dense_point_def)

text \<open>
  Claim C8, as stated, has a point in the result exactly when it has a vector. The
  point with named vectors has no dense vector, and it is in the result, with an empty
  vector.
\<close>

theorem GetVectorSpace_counterexample:
  "\<not> has_vector (Some named_point)
   \<and> GetVectorSpace example_GetAllUserPoints no_tags ''user'' 0 =
      Inr \<lparr>Points =
             [included_point no_tags (Some named_point),
              included_point no_tags (Some dense_point)],
           Points_Total = 2\<rparr>"
  unfolding GetVectorSpace_example
  by (simp add: has_vector_def included_point_def vector_point_def named_point_def
      dense_point_def)

text \<open>
  Claim C8, amended. The result of \<^verbatim>\<open>GetVectorSpace\<close> has one point, in the order of the
  scan, for every point of the scan that is not nil and whose \<^verbatim>\<open>Vectors\<close> are set, and
  no other; a point whose \<^verbatim>\<open>Vectors\<close> are set and hold no dense vector is in the result
  with an empty vector. The count returned is the number of these points.
\<close>

theorem GetVectorSpace_skips_unset_Vectors:
  assumes "GetVectorSpace GetAllUserPoints GetNoteTags userID limit = Inr resp"
  shows "\<exists>points.
           GetAllUserPoints userID (min 10000 (if limit \<le> 0 then 1000 else limit)) = Inr points \<and>
           Points resp = map (included_point GetNoteTags) (filter has_Vectors points) \<and>
           Points_Total resp = int (length (filter has_Vectors points)) \<and>
           Points_Total resp = int (length (Points resp))"
  using GetVectorSpace_Inr [OF assms] .

theorem GetVectorSpace_skips_unset_Vectors_witness:
  "GetVectorSpace example_GetAllUserPoints no_tags ''user'' 0 =
     Inr \<lparr>Points =
            [\<lparr>Point_NoteID = [], Point_Title = [], Point_Vector = [], Point_Tags = []\<rparr>,
             \<lparr>Point_NoteID = [], Point_Title = [], Point_Vector = [1, 2], Point_Tags = []\<rparr>],
          Points_Total = 2\<rparr>
   \<and> filter has_Vectors [None, Some bare_point, Some named_point, Some dense_point] =
       [Some named_point, Some dense_point]
   \<and> (\<exists>points. example_GetAllUserPoints ''user'' 1000 = Inr points \<and>
                 int (length (filter has_Vectors points)) = 2)"
proof -
  have f: "filter has_Vectors [None, Some bare_point, Some named_point, Some dense_point] =
       [Some named_point, Some dense_point]"
    by (simp add: bare_point_def named_point_def dense_point_def)
  from GetVectorSpace_skips_unset_Vectors [OF GetVectorSpace_example]
  have "\<exists>points. example_GetAllUserPoints ''user'' 1000 = Inr points \<and>
                 int (length (filter has_Vectors points)) = 2"
    by auto
  with f GetVectorSpace_example show ?thesis by blast
qed

section \<open>The relational store\<close>

text \<open>
  The tables of the migrations, as lists of rows in the order of insertion. A row of
  \<^verbatim>\<open>notes\<close> is a \<^typ>\<open>Note\<close> whose \<^verbatim>\<open>Tags\<close> are empty (the column does not exist); a
  row of \<^verbatim>\<open>note_tags\<close> is a pair of a note id and a tag id, and a row of
  \<^verbatim>\<open>note_links\<close> a link id, a source and a target. The primary key of \<^verbatim>\<open>notes\<close> is
  the id, so at most one row has a given id. The time stamps of the rows are left out: no
  function modelled here reads them. Values are taken to fit the length of their columns,
  and statements fail only where a constraint of the migrations is violated: the store is
  always reachable.

  What the source takes from outside the repository is a field of the environment: the
  values \<^verbatim>\<open>uuid.New()\<close> and \<^verbatim>\<open>gen_random_uuid()\<close> produce, one after the other (the
  store counts the draws); \<^verbatim>\<open>strings.ToLower\<close> on a string with a byte outside ASCII;
  \<^verbatim>\<open>LOWER\<close> of the database; and the order of \<^verbatim>\<open>ORDER BY\<close> on names, which depends on
  the collation.
\<close>

record NoteVersion =
  Version_ID :: string
  Version_NoteID :: string
  VersionNumber :: int
  Version_Title :: string
  Version_ContentMd :: string
  Version_SourceURL :: "string option"
  Version_Tags :: "string list"
  ChangeSummary :: "string option"
  CharsAdded :: int
  CharsRemoved :: int
  CreatedBy :: string

record db =
  notes_table :: "Note list"
  tags_table :: "Tag list"
  note_tags_table :: "(string \<times> string) list"
  note_links_table :: "(string \<times> string \<times> string) list"
  note_versions_table :: "NoteVersion list"
  uuid_count :: nat

record env =
  uuid_New :: "nat \<Rightarrow> string"
  unicode_ToLower :: "string \<Rightarrow> string"
  pg_LOWER :: "string \<Rightarrow> string"
  pg_ORDER_BY :: "string list \<Rightarrow> string list"

definition next_uuid :: "env \<Rightarrow> db \<Rightarrow> string" where
  "next_uuid E d = uuid_New E (uuid_count d)"

definition draw_uuid :: "db \<Rightarrow> db" where
  "draw_uuid d = d\<lparr>uuid_count := uuid_count d + 1\<rparr>"

text \<open>\<^verbatim>\<open>strings.ToLower\<close>: a string in ASCII has its letters \<^verbatim>\<open>A\<close> to \<^verbatim>\<open>Z\<close> replaced;
  any other string is mapped rune by rune through the Unicode tables.\<close>

definition lower_byte :: "char \<Rightarrow> char" where
  "lower_byte c =
     (let n = (of_char c :: nat) in if 65 \<le> n \<and> n \<le> 90 then char_of (n + 32) else c)"

definition ToLower :: "env \<Rightarrow> string \<Rightarrow> string" where
  "ToLower E s =
     (if list_all (\<lambda>c. (of_char c :: nat) < 128) s then map lower_byte s
      else unicode_ToLower E s)"

text \<open>\<^verbatim>\<open>LENGTH\<close> of a text of the database (well-formed UTF-8): its number of
  characters.\<close>

definition LENGTH :: "string \<Rightarrow> int" where
  "LENGTH s = int (RuneCountInString s)"

text \<open>The decimal digits of a number, as the concatenation \<^verbatim>\<open>||\<close> of a text and an
  integer writes them.\<close>

function decimal :: "nat \<Rightarrow> string" where
  "decimal n =
     (if n < 10 then [char_of (48 + n)]
      else decimal (n div 10) @ [char_of (48 + n mod 10)])"
  by pat_completeness auto
termination
  by (relation "measure id") auto

declare decimal.simps [simp del]

subsection \<open>Version history (migration 008)\<close>

text \<open>The names of the tags of a note, in the order of the database: the sub-select of
  both trigger functions, and \<^verbatim>\<open>GetNoteTags\<close> of the note repository.\<close>

definition note_tag_names :: "env \<Rightarrow> db \<Rightarrow> string \<Rightarrow> string list" where
  "note_tag_names E d noteID =
     pg_ORDER_BY E
       (concat (map (\<lambda>nt. map Tag_Name (filter (\<lambda>t. Tag_ID t = snd nt) (tags_table d)))
                 (filter (\<lambda>nt. fst nt = noteID) (note_tags_table d))))"

text \<open>An \<^verbatim>\<open>INSERT INTO note_versions\<close>: the unique index on the note id and the version
  number refuses a second row with the same two.\<close>

definition insert_note_version :: "NoteVersion \<Rightarrow> db \<Rightarrow> db option" where
  "insert_note_version v d =
     (if list_ex (\<lambda>w. Version_NoteID w = Version_NoteID v \<and> VersionNumber w = VersionNumber v)
           (note_versions_table d)
      then None
      else Some (d\<lparr>note_versions_table := note_versions_table d @ [v]\<rparr>))"

text \<open>\<^verbatim>\<open>COALESCE(MAX(version_number), 0)\<close> over the versions of a note.\<close>

definition latest_version :: "db \<Rightarrow> string \<Rightarrow> int" where
  "latest_version d noteID =
     (case map VersionNumber (filter (\<lambda>v. Version_NoteID v = noteID) (note_versions_table d)) of
        [] \<Rightarrow> 0
      | n # ns \<Rightarrow> fold max ns n)"

text \<open>The trigger function \<^verbatim>\<open>create_note_version\<close>, on the old and the new row.\<close>

definition change_summary :: "Note \<Rightarrow> Note \<Rightarrow> int \<Rightarrow> int \<Rightarrow> string" where
  "change_summary OLD NEW chars_added_val chars_removed_val =
     (let summary0 = (if Title OLD \<noteq> Title NEW then ''Title changed'' else []);
          summary1 = (if chars_added_val > 0
                      then (if summary0 \<noteq> [] then summary0 @ '', '' else summary0) @
                           ''+'' @ decimal (nat chars_added_val) @ '' chars''
                      else summary0);
          summary2 = (if chars_removed_val > 0
                      then (if summary1 \<noteq> [] then summary1 @ '', '' else summary1) @
                           ''-'' @ decimal (nat chars_removed_val) @ '' chars''
                      else summary1)
      in if summary2 = [] then ''Minor update'' else summary2)"

definition create_note_version :: "env \<Rightarrow> db \<Rightarrow> Note \<Rightarrow> Note \<Rightarrow> db option" where
  "create_note_version E d OLD NEW =
     (let latest = latest_version d (ID NEW);
          old_length = LENGTH (ContentMd OLD);
          new_length = LENGTH (ContentMd NEW);
          chars_added_val = (if new_length > old_length then new_length - old_length else 0);
          chars_removed_val = (if new_length > old_length then 0 else old_length - new_length)
      in insert_note_version
           \<lparr>Version_ID = next_uuid E d,
            Version_NoteID = ID NEW,
            VersionNumber = latest + 1,
            Version_Title = Title NEW,
            Version_ContentMd = ContentMd NEW,
            Version_SourceURL = SourceURL NEW,
            Version_Tags = note_tag_names E d (ID NEW),
            ChangeSummary = Some (change_summary OLD NEW chars_added_val chars_removed_val),
            CharsAdded = chars_added_val,
            CharsRemoved = chars_removed_val,
            CreatedBy = UserID NEW\<rparr>
           (draw_uuid d))"

text \<open>The trigger \<^verbatim>\<open>note_update_version\<close>: before the update of a row, when the title,
  the body or the source URL of the new row is distinct from the old one.\<close>

definition note_update_version :: "env \<Rightarrow> db \<Rightarrow> Note \<Rightarrow> Note \<Rightarrow> db option" where
  "note_update_version E d OLD NEW =
     (if Title OLD \<noteq> Title NEW \<or> ContentMd OLD \<noteq> ContentMd NEW \<or>
         SourceURL OLD \<noteq> SourceURL NEW
      then create_note_version E d OLD NEW
      else Some d)"

text \<open>The trigger \<^verbatim>\<open>note_insert_version\<close> with its function
  \<^verbatim>\<open>create_note_version_on_insert\<close>: after the insertion of a row.\<close>

definition note_insert_version :: "env \<Rightarrow> db \<Rightarrow> Note \<Rightarrow> db option" where
  "note_insert_version E d NEW =
     insert_note_version
       \<lparr>Version_ID = next_uuid E d,
        Version_NoteID = ID NEW,
        VersionNumber = 1,
        Version_Title = Title NEW,
        Version_ContentMd = ContentMd NEW,
        Version_SourceURL = SourceURL NEW,
        Version_Tags = note_tag_names E d (ID NEW),
        ChangeSummary = Some ''Initial version'',
        CharsAdded = LENGTH (ContentMd NEW),
        CharsRemoved = 0,
        CreatedBy = UserID NEW\<rparr>
       (draw_uuid d)"

subsection \<open>The note repository\<close>

definition owned :: "string \<Rightarrow> string \<Rightarrow> Note \<Rightarrow> bool" where
  "owned userID noteID n = (ID n = noteID \<and> UserID n = userID)"

text \<open>\<^verbatim>\<open>Create\<close>: the statement inserts the row and runs the insert trigger; when either
  fails, neither has happened.\<close>

definition noteRepo_Create ::
  "env \<Rightarrow> db \<Rightarrow> string \<Rightarrow> string \<Rightarrow> string \<Rightarrow> string option \<Rightarrow> db \<times> (error + Note)" where
  "noteRepo_Create E d userID title contentMd sourceURL =
     (let note = \<lparr>ID = next_uuid E d, UserID = userID, Title = title, ContentMd = contentMd,
                  SourceURL = sourceURL, IsPublic = False, PublicSlug = None, ViewCount = 0,
                  Tags = []\<rparr>;
          d1 = draw_uuid d
      in if list_ex (\<lambda>n. ID n = ID note) (notes_table d1)
         then (d1, Inl (Wrapf ''failed to create note'' (PgError ''unique_violation'')))
         else (case note_insert_version E (d1\<lparr>notes_table := notes_table d1 @ [note]\<rparr>) note of
                 None \<Rightarrow> (d1, Inl (Wrapf ''failed to create note'' (PgError ''unique_violation'')))
               | Some d2 \<Rightarrow> (d2, Inr note)))"

definition noteRepo_FindByID :: "db \<Rightarrow> string \<Rightarrow> string \<Rightarrow> error + Note" where
  "noteRepo_FindByID d userID noteID =
     (case find (owned userID noteID) (notes_table d) of
        None \<Rightarrow> Inl (Errorf ''note not found'')
      | Some note \<Rightarrow> Inr note)"

text \<open>\<^verbatim>\<open>Update\<close>: only the fields that are supplied are set; the update trigger runs
  before the row changes.\<close>

definition noteRepo_Update ::
  "env \<Rightarrow> db \<Rightarrow> string \<Rightarrow> string \<Rightarrow> string option \<Rightarrow> string option \<Rightarrow> string option \<Rightarrow>
   db \<times> (error + Note)" where
  "noteRepo_Update E d userID noteID title contentMd sourceURL =
     (if title = None \<and> contentMd = None \<and> sourceURL = None
      then (d, noteRepo_FindByID d userID noteID)
      else
        (case find (owned userID noteID) (notes_table d) of
           None \<Rightarrow> (d, Inl (Errorf ''note not found''))
         | Some OLD \<Rightarrow>
             (let NEW = OLD\<lparr>Title := (case title of None \<Rightarrow> Title OLD | Some t \<Rightarrow> t),
                            ContentMd := (case contentMd of None \<Rightarrow> ContentMd OLD | Some c \<Rightarrow> c),
                            SourceURL := (case sourceURL of None \<Rightarrow> SourceURL OLD
                                          | Some u \<Rightarrow> Some u)\<rparr>
              in case note_update_version E d OLD NEW of
                   None \<Rightarrow> (d, Inl (Wrapf ''failed to update note'' (PgError ''unique_violation'')))
                 | Some d1 \<Rightarrow>
                     (d1\<lparr>notes_table :=
                           map (\<lambda>n. if owned userID noteID n then NEW else n) (notes_table d1)\<rparr>,
                      Inr NEW))))"

definition GetNoteTags :: "env \<Rightarrow> db \<Rightarrow> string \<Rightarrow> string list" where
  "GetNoteTags E d noteID = note_tag_names E d noteID"

definition IsSlugAvailable :: "db \<Rightarrow> string \<Rightarrow> bool" where
  "IsSlugAvailable d slug = (\<not> list_ex (\<lambda>n. PublicSlug n = Some slug) (notes_table d))"

text \<open>\<^verbatim>\<open>TogglePublic\<close>: the column \<^verbatim>\<open>public_slug\<close> is \<^verbatim>\<open>UNIQUE\<close> (migration 005), so the
  update fails when another row holds the slug.\<close>

definition TogglePublic ::
  "db \<Rightarrow> string \<Rightarrow> string \<Rightarrow> bool \<Rightarrow> string option \<Rightarrow> db \<times> (error + unit)" where
  "TogglePublic d userID noteID isPublic publicSlug =
     (if \<not> list_ex (owned userID noteID) (notes_table d)
      then (d, Inl (Errorf ''note not found''))
      else if isPublic then
        (if (case publicSlug of
               None \<Rightarrow> False
             | Some slug \<Rightarrow>
                 list_ex (\<lambda>n. \<not> owned userID noteID n \<and> PublicSlug n = Some slug)
                   (notes_table d))
         then (d, Inl (Wrapf ''failed to toggle public status'' (PgError ''unique_violation'')))
         else (d\<lparr>notes_table :=
                   map (\<lambda>n. if owned userID noteID n
                             then n\<lparr>IsPublic := isPublic, PublicSlug := publicSlug\<rparr> else n)
                     (notes_table d)\<rparr>,
               Inr ()))
      else (d\<lparr>notes_table :=
                map (\<lambda>n. if owned userID noteID n
                          then n\<lparr>IsPublic := isPublic, PublicSlug := None\<rparr> else n)
                  (notes_table d)\<rparr>,
            Inr ()))"

subsection \<open>The tag repository (tag_repository.go)\<close>

definition FindOrCreateByName :: "env \<Rightarrow> db \<Rightarrow> string \<Rightarrow> string \<Rightarrow> db \<times> (error + Tag)" where
  "FindOrCreateByName E d userID name =
     (let normalizedName = ToLower E (TrimSpace name)
      in if normalizedName = [] then (d, Inl (Errorf ''tag name cannot be empty''))
         else
           (case find (\<lambda>t. Tag_UserID t = userID \<and> Tag_Name t = normalizedName) (tags_table d) of
              Some tag \<Rightarrow> (d, Inr tag)
            | None \<Rightarrow>
                (let tag = \<lparr>Tag_ID = next_uuid E d, Tag_UserID = userID,
                            Tag_Name = normalizedName\<rparr>
                 in ((draw_uuid d)\<lparr>tags_table := tags_table d @ [tag]\<rparr>, Inr tag))))"

definition FindByNames :: "env \<Rightarrow> db \<Rightarrow> string \<Rightarrow> string list \<Rightarrow> Tag list" where
  "FindByNames E d userID names =
     (if length names = 0 then []
      else (let normalizedNames = map (\<lambda>name. ToLower E (TrimSpace name)) names
            in filter (\<lambda>t. Tag_UserID t = userID \<and> Tag_Name t \<in> set normalizedNames)
                 (tags_table d)))"

text \<open>\<^verbatim>\<open>SetNoteTags\<close>, one transaction: the rows of the note are deleted and one row a
  tag id is inserted; the primary key refuses a tag id that comes twice, and then nothing
  has changed.\<close>

definition SetNoteTags :: "db \<Rightarrow> string \<Rightarrow> string list \<Rightarrow> db \<times> (error + unit)" where
  "SetNoteTags d noteID tagIDs =
     (if \<not> distinct tagIDs
      then (d, Inl (Wrapf ''failed to assign tag'' (PgError ''unique_violation'')))
      else (d\<lparr>note_tags_table :=
                filter (\<lambda>nt. fst nt \<noteq> noteID) (note_tags_table d) @ map (Pair noteID) tagIDs\<rparr>,
            Inr ()))"

definition tagRepo_FindByID :: "db \<Rightarrow> string \<Rightarrow> string \<Rightarrow> error + Tag" where
  "tagRepo_FindByID d userID tagID =
     (case find (\<lambda>t. Tag_UserID t = userID \<and> Tag_ID t = tagID) (tags_table d) of
        None \<Rightarrow> Inl (Errorf ''tag not found'')
      | Some tag \<Rightarrow> Inr tag)"

text \<open>The ids of the notes of a user that carry a tag:
  \<^verbatim>\<open>SELECT DISTINCT n.id FROM notes n INNER JOIN note_tags nt ON n.id = nt.note_id\<close>
  \<^verbatim>\<open>WHERE n.user_id = $1 AND nt.tag_id = $2\<close>.\<close>

definition notes_with_tag :: "db \<Rightarrow> string \<Rightarrow> string \<Rightarrow> string list" where
  "notes_with_tag d userID tagID =
     remdups (map ID (filter (\<lambda>n. UserID n = userID \<and> (ID n, tagID) \<in> set (note_tags_table d))
                       (notes_table d)))"

definition GetNotesCountByTag :: "db \<Rightarrow> string \<Rightarrow> string \<Rightarrow> int" where
  "GetNotesCountByTag d userID tagID = int (length (notes_with_tag d userID tagID))"

text \<open>\<^verbatim>\<open>DELETE FROM notes WHERE id = ANY($1) AND user_id = $2\<close>, with the cascades of the
  foreign keys on \<^verbatim>\<open>note_tags\<close>, \<^verbatim>\<open>note_links\<close> and \<^verbatim>\<open>note_versions\<close>.\<close>

definition delete_notes :: "db \<Rightarrow> string list \<Rightarrow> string \<Rightarrow> db" where
  "delete_notes d noteIDs userID =
     (let gone = (\<lambda>n. ID n \<in> set noteIDs \<and> UserID n = userID);
          ids = map ID (filter gone (notes_table d))
      in d\<lparr>notes_table := filter (\<lambda>n. \<not> gone n) (notes_table d),
            note_tags_table := filter (\<lambda>nt. fst nt \<notin> set ids) (note_tags_table d),
            note_links_table :=
              filter (\<lambda>l. fst (snd l) \<notin> set ids \<and> snd (snd l) \<notin> set ids) (note_links_table d),
            note_versions_table :=
              filter (\<lambda>v. Version_NoteID v \<notin> set ids) (note_versions_table d)\<rparr>)"

text \<open>\<^verbatim>\<open>Delete\<close> of the tag repository, one transaction: the notes that carry the tag are
  deleted, then the tag, with the cascade on \<^verbatim>\<open>note_tags\<close>; when no tag row is deleted
  the transaction is rolled back.\<close>

definition tagRepo_Delete :: "db \<Rightarrow> string \<Rightarrow> string \<Rightarrow> db \<times> (error + string list)" where
  "tagRepo_Delete d userID tagID =
     (let noteIDs = notes_with_tag d userID tagID;
          d1 = (if length noteIDs > 0 then delete_notes d noteIDs userID else d)
      in if \<not> list_ex (\<lambda>t. Tag_ID t = tagID \<and> Tag_UserID t = userID) (tags_table d1)
         then (d, Inl (Errorf ''tag not found or access denied''))
         else (d1\<lparr>tags_table :=
                     filter (\<lambda>t. \<not> (Tag_ID t = tagID \<and> Tag_UserID t = userID)) (tags_table d1),
                   note_tags_table := filter (\<lambda>nt. snd nt \<noteq> tagID) (note_tags_table d1)\<rparr>,
               Inr noteIDs))"

subsection \<open>The link repository\<close>

definition DeleteLinksForNote :: "db \<Rightarrow> string \<Rightarrow> db" where
  "DeleteLinksForNote d noteID =
     d\<lparr>note_links_table := filter (\<lambda>l. fst (snd l) \<noteq> noteID) (note_links_table d)\<rparr>"

definition FindNoteByTitle :: "env \<Rightarrow> db \<Rightarrow> string \<Rightarrow> string \<Rightarrow> string option" where
  "FindNoteByTitle E d userID title =
     map_option ID
       (find (\<lambda>n. UserID n = userID \<and> pg_LOWER E (Title n) = pg_LOWER E title) (notes_table d))"

text \<open>\<^verbatim>\<open>CreateLink\<close>: a pair that is there already is left alone; the foreign keys
  refuse a source or a target that is not a note.\<close>

definition CreateLink :: "env \<Rightarrow> db \<Rightarrow> string \<Rightarrow> string \<Rightarrow> db \<times> (error + unit)" where
  "CreateLink E d sourceNoteID targetNoteID =
     (let linkID = next_uuid E d; d1 = draw_uuid d
      in if list_ex (\<lambda>l. snd l = (sourceNoteID, targetNoteID)) (note_links_table d1)
         then (d1, Inr ())
         else if \<not> list_ex (\<lambda>n. ID n = sourceNoteID) (notes_table d1)
              \<or> \<not> list_ex (\<lambda>n. ID n = targetNoteID) (notes_table d1)
         then (d1, Inl (Wrapf ''failed to create link'' (PgError ''foreign_key_violation'')))
         else (d1\<lparr>note_links_table :=
                     note_links_table d1 @ [(linkID, sourceNoteID, targetNoteID)]\<rparr>,
               Inr ()))"

definition GetVersion :: "db \<Rightarrow> string \<Rightarrow> error + NoteVersion" where
  "GetVersion d versionID =
     (case find (\<lambda>v. Version_ID v = versionID) (note_versions_table d) of
        None \<Rightarrow> Inl (PgError ''no rows in result set'')
      | Some v \<Rightarrow> Inr v)"

section \<open>The note service on the relational store (service.go)\<close>

text \<open>
  The methods of the service that write to the store, with the repositories above in
  the place of the interfaces. The tasks a method starts with \<^verbatim>\<open>go\<close> (indexing a note
  in the vector index, deleting its point, and the links of a restored note) run after
  the method has taken its decisions, on state the claims do not read; they are left
  out.
\<close>

record CreateNoteRequest =
  Create_Title :: string
  Create_ContentMd :: string
  Create_SourceURL :: "string option"
  Create_Tags :: "string list"

record UpdateNoteRequest =
  Update_Title :: "string option"
  Update_ContentMd :: "string option"
  Update_SourceURL :: "string option"
  Update_Tags :: "string list option"

record ShareNoteResponse =
  Share_IsPublic :: bool
  Share_PublicSlug :: "string option"
  PublicURL :: "string option"

fun uniqueStrings_loop :: "string list \<Rightarrow> string set \<Rightarrow> string list \<Rightarrow> string list" where
  "uniqueStrings_loop [] seen result = result"
| "uniqueStrings_loop (v # input) seen result =
     (if v \<notin> seen then uniqueStrings_loop input (insert v seen) (result @ [v])
      else uniqueStrings_loop input seen result)"

definition uniqueStrings :: "string list \<Rightarrow> string list" where
  "uniqueStrings input = uniqueStrings_loop input {} []"

fun ensureTagsExist ::
  "env \<Rightarrow> db \<Rightarrow> string \<Rightarrow> string list \<Rightarrow> db \<times> (error + string list)" where
  "ensureTagsExist E d userID [] = (d, Inr [])"
| "ensureTagsExist E d userID (name # tagNames) =
     (case FindOrCreateByName E d userID name of
        (d1, Inl err) \<Rightarrow> (d1, Inl err)
      | (d1, Inr tag) \<Rightarrow>
          (case ensureTagsExist E d1 userID tagNames of
             (d2, Inl err) \<Rightarrow> (d2, Inl err)
           | (d2, Inr tagIDs) \<Rightarrow> (d2, Inr (Tag_ID tag # tagIDs))))"

text \<open>The loop of \<^verbatim>\<open>processNoteLinks\<close> over the titles: a title without a note is
  skipped, and the first link that cannot be created ends the loop.\<close>

fun create_links ::
  "env \<Rightarrow> db \<Rightarrow> string \<Rightarrow> string \<Rightarrow> string list \<Rightarrow> db \<times> (error + unit)" where
  "create_links E d userID noteID [] = (d, Inr ())"
| "create_links E d userID noteID (title # linkedTitles) =
     (case FindNoteByTitle E d userID title of
        None \<Rightarrow> create_links E d userID noteID linkedTitles
      | Some targetNoteID \<Rightarrow>
          (case CreateLink E d noteID targetNoteID of
             (d1, Inl err) \<Rightarrow> (d1, Inl err)
           | (d1, Inr u) \<Rightarrow> create_links E d1 userID noteID linkedTitles))"

definition processNoteLinks ::
  "env \<Rightarrow> db \<Rightarrow> string \<Rightarrow> string \<Rightarrow> string \<Rightarrow> db \<times> (error + unit)" where
  "processNoteLinks E d userID noteID content =
     create_links E (DeleteLinksForNote d noteID) userID noteID (ExtractNoteLinks content)"

definition CreateNote :: "env \<Rightarrow> db \<Rightarrow> string \<Rightarrow> CreateNoteRequest \<Rightarrow> db \<times> (error + Note)" where
  "CreateNote E d userID req =
     (if Create_Title req = [] then (d, Inl (Errorf ''title is required''))
      else if Create_ContentMd req = [] then (d, Inl (Errorf ''content is required''))
      else
        (let tags = uniqueStrings (Create_Tags req)
         in case noteRepo_Create E d userID (Create_Title req) (Create_ContentMd req)
                   (Create_SourceURL req) of
              (d1, Inl err) \<Rightarrow> (d1, Inl (Wrapf ''failed to create note'' err))
            | (d1, Inr note) \<Rightarrow>
                (case (if length tags > 0 then
                         (case ensureTagsExist E d1 userID tags of
                            (d2, Inl err) \<Rightarrow> (d2, Inl (Wrapf ''failed to process tags'' err))
                          | (d2, Inr tagIDs) \<Rightarrow>
                              (case SetNoteTags d2 (ID note) tagIDs of
                                 (d3, Inl err) \<Rightarrow> (d3, Inl (Wrapf ''failed to assign tags'' err))
                               | (d3, Inr u) \<Rightarrow> (d3, Inr (note\<lparr>Tags := tags\<rparr>))))
                       else (d1, Inr note)) of
                   (d4, Inl err) \<Rightarrow> (d4, Inl err)
                 | (d4, Inr note') \<Rightarrow>
                     (fst (processNoteLinks E d4 userID (ID note) (Create_ContentMd req)),
                      Inr note'))))"

definition UpdateNote ::
  "env \<Rightarrow> db \<Rightarrow> string \<Rightarrow> string \<Rightarrow> UpdateNoteRequest \<Rightarrow> db \<times> (error + Note)" where
  "UpdateNote E d userID noteID req =
     (case noteRepo_Update E d userID noteID (Update_Title req) (Update_ContentMd req)
             (Update_SourceURL req) of
        (d1, Inl err) \<Rightarrow> (d1, Inl err)
      | (d1, Inr note) \<Rightarrow>
          (case (case Update_Tags req of
                   Some tags \<Rightarrow>
                     (case ensureTagsExist E d1 userID tags of
                        (d2, Inl err) \<Rightarrow> (d2, Inl (Wrapf ''failed to process tags'' err))
                      | (d2, Inr tagIDs) \<Rightarrow>
                          (case SetNoteTags d2 (ID note) tagIDs of
                             (d3, Inl err) \<Rightarrow> (d3, Inl (Wrapf ''failed to update tags'' err))
                           | (d3, Inr u) \<Rightarrow> (d3, Inr (note\<lparr>Tags := tags\<rparr>))))
                 | None \<Rightarrow> (d1, Inr (note\<lparr>Tags := GetNoteTags E d1 noteID\<rparr>))) of
             (d4, Inl err) \<Rightarrow> (d4, Inl err)
           | (d4, Inr note') \<Rightarrow>
               (case Update_ContentMd req of
                  Some content \<Rightarrow>
                    (fst (processNoteLinks E d4 userID (ID note) content), Inr note')
                | None \<Rightarrow> (d4, Inr note'))))"

definition DeleteTag :: "db \<Rightarrow> string \<Rightarrow> string \<Rightarrow> db \<times> (error + int)" where
  "DeleteTag d userID tagID =
     (case tagRepo_FindByID d userID tagID of
        Inl err \<Rightarrow> (d, Inl err)
      | Inr tag \<Rightarrow>
          (let notesCount = GetNotesCountByTag d userID tagID
           in case tagRepo_Delete d userID tagID of
                (d1, Inl err) \<Rightarrow> (d1, Inl (Wrapf ''failed to delete tag'' err))
              | (d1, Inr deletedNoteIDs) \<Rightarrow> (d1, Inr notesCount)))"

text \<open>\<^verbatim>\<open>RestoreVersion\<close>: the errors of the tag repository are dropped, and so is the
  result of \<^verbatim>\<open>SetNoteTags\<close>.\<close>

definition RestoreVersion ::
  "env \<Rightarrow> db \<Rightarrow> string \<Rightarrow> string \<Rightarrow> string \<Rightarrow> db \<times> (error + Note)" where
  "RestoreVersion E d userID noteID versionID =
     (case noteRepo_FindByID d userID noteID of
        Inl err \<Rightarrow> (d, Inl (Wrapf ''note not found or access denied'' err))
      | Inr found \<Rightarrow>
          (case GetVersion d versionID of
             Inl err \<Rightarrow> (d, Inl (Wrapf ''version not found'' err))
           | Inr version \<Rightarrow>
               if Version_NoteID version \<noteq> noteID
               then (d, Inl (Errorf ''version does not belong to this note''))
               else
                 (case noteRepo_Update E d userID noteID (Some (Version_Title version))
                         (Some (Version_ContentMd version)) (Version_SourceURL version) of
                    (d1, Inl err) \<Rightarrow> (d1, Inl (Wrapf ''failed to restore version'' err))
                  | (d1, Inr note) \<Rightarrow>
                      (let d2 =
                             (if length (Version_Tags version) > 0 then
                                (let tagObjects = FindByNames E d1 userID (Version_Tags version)
                                 in if length tagObjects > 0
                                    then fst (SetNoteTags d1 noteID (map Tag_ID tagObjects))
                                    else d1)
                              else fst (SetNoteTags d1 noteID []))
                       in case noteRepo_FindByID d2 userID noteID of
                            Inl err \<Rightarrow> (d2, Inr note)
                          | Inr freshNote \<Rightarrow>
                              (d2, Inr (freshNote\<lparr>Tags := GetNoteTags E d2 noteID\<rparr>))))))"

subsection \<open>Public sharing\<close>

text \<open>\<^verbatim>\<open>generateSlug\<close>. The class \<^verbatim>\<open>[^a-z0-9-_]\<close> is every rune but the lower-case
  letters, the digits, the hyphen and the underscore; the runes that stay are bytes of
  ASCII. \<^verbatim>\<open>noteID[:8]\<close> panics for an id of fewer than 8 bytes.\<close>

definition slug_byte :: "char \<Rightarrow> bool" where
  "slug_byte c =
     (let n = (of_char c :: nat)
      in (97 \<le> n \<and> n \<le> 122) \<or> (48 \<le> n \<and> n \<le> 57) \<or> c = CHR ''-'' \<or> c = CHR ''_'')"

fun collapse_hyphens :: "string \<Rightarrow> string" where
  "collapse_hyphens (a # b # cs) =
     (if a = CHR ''-'' \<and> b = CHR ''-'' then collapse_hyphens (b # cs)
      else a # collapse_hyphens (b # cs))"
| "collapse_hyphens cs = cs"

definition Trim_hyphens :: "string \<Rightarrow> string" where
  "Trim_hyphens s =
     rev (dropWhile (\<lambda>c. c = CHR ''-'') (rev (dropWhile (\<lambda>c. c = CHR ''-'') s)))"

definition generateSlug :: "env \<Rightarrow> string \<Rightarrow> string \<Rightarrow> error + string" where
  "generateSlug E title noteID =
     (let slug1 = ToLower E title;
          slug2 = map (\<lambda>c. if c = CHR '' '' then CHR ''-'' else c) slug1;
          slug3 = filter slug_byte slug2;
          slug4 = collapse_hyphens slug3;
          slug5 = Trim_hyphens slug4;
          slug6 = (if length slug5 > 100 then take 100 slug5 else slug5)
      in if slug6 = []
         then (if length noteID < 8 then Inl PanicSliceBounds else Inr (take 8 noteID))
         else Inr slug6)"

definition ShareNote ::
  "env \<Rightarrow> db \<Rightarrow> string \<Rightarrow> string \<Rightarrow> bool \<Rightarrow> string \<Rightarrow> db \<times> (error + ShareNoteResponse)" where
  "ShareNote E d userID noteID isPublic baseURL =
     (case noteRepo_FindByID d userID noteID of
        Inl err \<Rightarrow> (d, Inl err)
      | Inr note \<Rightarrow>
          (case (if isPublic then
                   (case generateSlug E (Title note) noteID of
                      Inl err \<Rightarrow> Inl err
                    | Inr slug \<Rightarrow>
                        if \<not> IsSlugAvailable d slug
                        then (if length noteID < 8 then Inl PanicSliceBounds
                              else Inr (Some (slug @ ''-'' @ take 8 noteID)))
                        else Inr (Some slug))
                 else Inr None) of
             Inl err \<Rightarrow> (d, Inl err)
           | Inr publicSlug \<Rightarrow>
               (case TogglePublic d userID noteID isPublic publicSlug of
                  (d1, Inl err) \<Rightarrow> (d1, Inl err)
                | (d1, Inr u) \<Rightarrow>
                    (d1, Inr \<lparr>Share_IsPublic = isPublic, Share_PublicSlug = publicSlug,
                              PublicURL = (if isPublic
                                           then map_option (\<lambda>slug. baseURL @ ''/public/'' @ slug)
                                                  publicSlug
                                           else None)\<rparr>))))"

subsection \<open>What the tag and link operations leave alone\<close>

lemma draw_uuid_tables [simp]:
  "notes_table (draw_uuid d) = notes_table d"
  "tags_table (draw_uuid d) = tags_table d"
  "note_tags_table (draw_uuid d) = note_tags_table d"
  "note_links_table (draw_uuid d) = note_links_table d"
  "note_versions_table (draw_uuid d) = note_versions_table d"
  by (simp_all add: draw_uuid_def)

lemma FindOrCreateByName_frame:
  "notes_table (fst (FindOrCreateByName E d userID name)) = notes_table d"
  "note_versions_table (fst (FindOrCreateByName E d userID name)) = note_versions_table d"
  by (simp_all add: FindOrCreateByName_def Let_def split: option.splits)

lemma ensureTagsExist_frame:
  "notes_table (fst (ensureTagsExist E d userID names)) = notes_table d \<and>
   note_versions_table (fst (ensureTagsExist E d userID names)) = note_versions_table d"
proof (induction names arbitrary: d)
  case Nil
  then show ?case by simp
next
  case (Cons name names)
  obtain d1 r where f: "FindOrCreateByName E d userID name = (d1, r)"
    by (cases "FindOrCreateByName E d userID name")
  have d1: "notes_table d1 = notes_table d" "note_versions_table d1 = note_versions_table d"
    using FindOrCreateByName_frame [of E d userID name] f by simp_all
  show ?case
  proof (cases r)
    case (Inl err)
    with f d1 show ?thesis by simp
  next
    case (Inr tag)
    obtain d2 r2 where e: "ensureTagsExist E d1 userID names = (d2, r2)"
      by (cases "ensureTagsExist E d1 userID names")
    with Cons [of d1] have "notes_table d2 = notes_table d1"
      "note_versions_table d2 = note_versions_table d1" by simp_all
    with f Inr e d1 show ?thesis by (cases r2) simp_all
  qed
qed

lemma SetNoteTags_frame:
  "notes_table (fst (SetNoteTags d noteID tagIDs)) = notes_table d"
  "note_versions_table (fst (SetNoteTags d noteID tagIDs)) = note_versions_table d"
  by (simp_all add: SetNoteTags_def)

lemma CreateLink_frame:
  "notes_table (fst (CreateLink E d s t)) = notes_table d"
  "note_versions_table (fst (CreateLink E d s t)) = note_versions_table d"
  by (simp_all add: CreateLink_def Let_def)

lemma FindNoteByTitle_cong:
  "notes_table d' = notes_table d \<Longrightarrow> FindNoteByTitle E d' userID title = FindNoteByTitle E d userID title"
  by (simp add: FindNoteByTitle_def)

lemma create_links_frame:
  "notes_table (fst (create_links E d userID noteID titles)) = notes_table d \<and>
   note_versions_table (fst (create_links E d userID noteID titles)) = note_versions_table d"
proof (induction titles arbitrary: d)
  case Nil
  then show ?case by simp
next
  case (Cons title titles)
  show ?case
  proof (cases "FindNoteByTitle E d userID title")
    case None
    with Cons [of d] show ?thesis by simp
  next
    case (Some target)
    obtain d1 r where c: "CreateLink E d noteID target = (d1, r)"
      by (cases "CreateLink E d noteID target")
    have d1: "notes_table d1 = notes_table d" "note_versions_table d1 = note_versions_table d"
      using CreateLink_frame [of E d noteID target] c by simp_all
    show ?thesis
    proof (cases r)
      case (Inl err)
      with Some c d1 show ?thesis by simp
    next
      case (Inr u)
      with Some c d1 Cons [of d1] show ?thesis by simp
    qed
  qed
qed

lemma processNoteLinks_frame:
  "notes_table (fst (processNoteLinks E d userID noteID content)) = notes_table d"
  "note_versions_table (fst (processNoteLinks E d userID noteID content)) = note_versions_table d"
  using create_links_frame [of E "DeleteLinksForNote d noteID" userID noteID "ExtractNoteLinks content"]
  by (simp_all add: processNoteLinks_def DeleteLinksForNote_def)

subsection \<open>Creating a note\<close>

definition first_version :: "Note \<Rightarrow> NoteVersion \<Rightarrow> bool" where
  "first_version note v =
     (Version_NoteID v = ID note \<and> VersionNumber v = 1 \<and> Version_Title v = Title note \<and>
      Version_ContentMd v = ContentMd note \<and> Version_SourceURL v = SourceURL note \<and>
      CreatedBy v = UserID note)"

lemma note_insert_version_Some:
  "note_insert_version E d NEW = Some d' \<Longrightarrow>
   notes_table d' = notes_table d \<and>
   (\<exists>v. note_versions_table d' = note_versions_table d @ [v] \<and> first_version NEW v)"
  unfolding note_insert_version_def insert_note_version_def first_version_def
  by (auto split: if_splits)

lemma noteRepo_Create_Inr:
  assumes "noteRepo_Create E d userID title contentMd sourceURL = (d', Inr note)"
  shows "notes_table d' = notes_table d @ [note]"
    and "\<exists>v. note_versions_table d' = note_versions_table d @ [v] \<and> first_version note v"
    and "ID note = next_uuid E d" and "UserID note = userID" and "Title note = title"
    and "ContentMd note = contentMd" and "SourceURL note = sourceURL"
proof -
  define n where "n = \<lparr>ID = next_uuid E d, UserID = userID, Title = title,
      ContentMd = contentMd, SourceURL = sourceURL, IsPublic = False, PublicSlug = None,
      ViewCount = 0, Tags = []\<rparr>"
  from assms have i: "note_insert_version E ((draw_uuid d)\<lparr>notes_table := notes_table (draw_uuid d) @ [n]\<rparr>) n = Some d'"
    and e: "note = n"
    unfolding noteRepo_Create_def Let_def n_def [symmetric]
    by (auto split: if_splits option.splits)
  from note_insert_version_Some [OF i]
  show "notes_table d' = notes_table d @ [note]"
    and "\<exists>v. note_versions_table d' = note_versions_table d @ [v] \<and> first_version note v"
    using e by simp_all
  show "ID note = next_uuid E d" "UserID note = userID" "Title note = title"
    "ContentMd note = contentMd" "SourceURL note = sourceURL"
    using e by (simp_all add: n_def)
qed

lemma noteRepo_Create_Inl:
  assumes "noteRepo_Create E d userID title contentMd sourceURL = (d', Inl err)"
  shows "notes_table d' = notes_table d" and "note_versions_table d' = note_versions_table d"
  using assms unfolding noteRepo_Create_def Let_def
  by (auto split: if_splits option.splits)

lemma noteRepo_Create_succeeds:
  assumes "\<not> list_ex (\<lambda>n. ID n = next_uuid E d) (notes_table d)"
    and "\<not> list_ex (\<lambda>w. Version_NoteID w = next_uuid E d \<and> VersionNumber w = 1)
             (note_versions_table d)"
  shows "\<exists>d' note. noteRepo_Create E d userID title contentMd sourceURL = (d', Inr note)"
  using assms unfolding noteRepo_Create_def Let_def note_insert_version_def insert_note_version_def
  by simp

text \<open>After the row of the note, \<^verbatim>\<open>CreateNote\<close> writes to the tables of the tags and
  of the links only.\<close>

lemma assign_tags_frame:
  assumes "(case ensureTagsExist E d1 userID tags of
              (d2, Inl err) \<Rightarrow> (d2, Inl (Wrapf m1 err))
            | (d2, Inr tagIDs) \<Rightarrow>
                (case SetNoteTags d2 noteID tagIDs of
                   (d3, Inl err) \<Rightarrow> (d3, Inl (Wrapf m2 err))
                 | (d3, Inr u) \<Rightarrow> (d3, Inr n))) = (d4, r4)"
  shows "notes_table d4 = notes_table d1 \<and> note_versions_table d4 = note_versions_table d1"
proof -
  obtain d2 r2 where e: "ensureTagsExist E d1 userID tags = (d2, r2)"
    by (cases "ensureTagsExist E d1 userID tags")
  have d2: "notes_table d2 = notes_table d1" "note_versions_table d2 = note_versions_table d1"
    using ensureTagsExist_frame [of E d1 userID tags] e by simp_all
  show ?thesis
  proof (cases r2)
    case (Inl err)
    with assms e d2 show ?thesis by auto
  next
    case (Inr tagIDs)
    obtain d3 r3 where s: "SetNoteTags d2 noteID tagIDs = (d3, r3)"
      by (cases "SetNoteTags d2 noteID tagIDs")
    have d3: "notes_table d3 = notes_table d2" "note_versions_table d3 = note_versions_table d2"
      using SetNoteTags_frame [of d2 noteID tagIDs] s by simp_all
    from assms e Inr s have "d4 = d3" by (cases r3) auto
    with d2 d3 show ?thesis by simp
  qed
qed

text \<open>After the row of the note, \<^verbatim>\<open>CreateNote\<close> writes to the tables of the tags and
  of the links only.\<close>

lemma CreateNote_after_Create:
  assumes "Create_Title req \<noteq> []" and "Create_ContentMd req \<noteq> []"
    and "noteRepo_Create E d userID (Create_Title req) (Create_ContentMd req)
           (Create_SourceURL req) = (d1, r1)"
    and "CreateNote E d userID req = (d', r)"
  shows "notes_table d' = notes_table d1 \<and> note_versions_table d' = note_versions_table d1"
proof (cases r1)
  case (Inl err)
  with assms show ?thesis unfolding CreateNote_def Let_def by simp
next
  case (Inr created)
  define tags where "tags = uniqueStrings (Create_Tags req)"
  define T where "T = (if length tags > 0 then
        (case ensureTagsExist E d1 userID tags of
           (d2, Inl err) \<Rightarrow> (d2, Inl (Wrapf ''failed to process tags'' err))
         | (d2, Inr tagIDs) \<Rightarrow>
             (case SetNoteTags d2 (ID created) tagIDs of
                (d3, Inl err) \<Rightarrow> (d3, Inl (Wrapf ''failed to assign tags'' err))
              | (d3, Inr u) \<Rightarrow> (d3, Inr (created\<lparr>Tags := tags\<rparr>))))
      else (d1, Inr created))"
  obtain d4 r4 where t: "T = (d4, r4)" by (cases T)
  have d4: "notes_table d4 = notes_table d1 \<and> note_versions_table d4 = note_versions_table d1"
  proof (cases "length tags > 0")
    case True
    with t have "(case ensureTagsExist E d1 userID tags of
           (d2, Inl err) \<Rightarrow> (d2, Inl (Wrapf ''failed to process tags'' err))
         | (d2, Inr tagIDs) \<Rightarrow>
             (case SetNoteTags d2 (ID created) tagIDs of
                (d3, Inl err) \<Rightarrow> (d3, Inl (Wrapf ''failed to assign tags'' err))
              | (d3, Inr u) \<Rightarrow> (d3, Inr (created\<lparr>Tags := tags\<rparr>)))) = (d4, r4)"
      unfolding T_def by (simp del: length_greater_0_conv)
    then show ?thesis by (rule assign_tags_frame)
  next
    case False
    with t show ?thesis unfolding T_def by (simp del: length_greater_0_conv)
  qed
  have c: "CreateNote E d userID req =
      (case T of
         (d4, Inl err) \<Rightarrow> (d4, Inl err)
       | (d4, Inr note') \<Rightarrow>
           (fst (processNoteLinks E d4 userID (ID created) (Create_ContentMd req)), Inr note'))"
    unfolding CreateNote_def Let_def tags_def [symmetric] T_def
    using assms(1,2,3) Inr by (simp del: length_greater_0_conv)
  show ?thesis
  proof (cases r4)
    case (Inl err)
    with c t assms(4) have "d' = d4" by simp
    with d4 show ?thesis by simp
  next
    case (Inr note')
    with c t assms(4)
    have "d' = fst (processNoteLinks E d4 userID (ID created) (Create_ContentMd req))" by simp
    with d4 processNoteLinks_frame [of E d4 userID "ID created" "Create_ContentMd req"]
    show ?thesis by simp
  qed
qed

lemma uniqueStrings_loop_set:
  "set (uniqueStrings_loop input (set result) result) = set result \<union> set input"
proof (induction input arbitrary: result)
  case Nil
  then show ?case by simp
next
  case (Cons v input)
  show ?case
  proof (cases "v \<in> set result")
    case True
    with Cons [of result] show ?thesis by auto
  next
    case False
    have "uniqueStrings_loop (v # input) (set result) result =
          uniqueStrings_loop input (set (result @ [v])) (result @ [v])"
      using False by simp
    then have "set (uniqueStrings_loop (v # input) (set result) result) =
          set (result @ [v]) \<union> set input"
      using Cons [of "result @ [v]"] by (simp only:)
    then show ?thesis by simp

  qed
qed

lemma set_uniqueStrings: "set (uniqueStrings input) = set input"
  using uniqueStrings_loop_set [of input "[]"] by (simp add: uniqueStrings_def)

lemma FindOrCreateByName_blank:
  "ToLower E (TrimSpace name) = [] \<Longrightarrow>
   FindOrCreateByName E d userID name = (d, Inl (Errorf ''tag name cannot be empty''))"
  by (simp add: FindOrCreateByName_def)

lemma FindOrCreateByName_named:
  "ToLower E (TrimSpace name) \<noteq> [] \<Longrightarrow>
   \<exists>d1 tag. FindOrCreateByName E d userID name = (d1, Inr tag)"
  by (simp add: FindOrCreateByName_def Let_def split: option.splits)

lemma ensureTagsExist_blank:
  "list_ex (\<lambda>name. ToLower E (TrimSpace name) = []) names \<Longrightarrow>
   snd (ensureTagsExist E d userID names) = Inl (Errorf ''tag name cannot be empty'')"
proof (induction names arbitrary: d)
  case Nil
  then show ?case by simp
next
  case (Cons name names)
  show ?case
  proof (cases "ToLower E (TrimSpace name) = []")
    case True
    then show ?thesis by (simp add: FindOrCreateByName_blank)
  next
    case False
    then obtain d1 tag where f: "FindOrCreateByName E d userID name = (d1, Inr tag)"
      using FindOrCreateByName_named by blast
    from False Cons.prems have "list_ex (\<lambda>name. ToLower E (TrimSpace name) = []) names" by simp
    from Cons.IH [OF this, of d1]
    obtain d2 where "ensureTagsExist E d1 userID names = (d2, Inl (Errorf ''tag name cannot be empty''))"
      by (cases "ensureTagsExist E d1 userID names") auto
    with f show ?thesis by simp
  qed
qed

lemma ToLower_Nil [simp]: "ToLower E [] = []"
  by (simp add: ToLower_def)

lemma CreateNote_blank_tag:
  assumes "Create_Title req \<noteq> []" and "Create_ContentMd req \<noteq> []"
    and "name \<in> set (Create_Tags req)" and "TrimSpace name = []"
    and "noteRepo_Create E d userID (Create_Title req) (Create_ContentMd req)
           (Create_SourceURL req) = (d1, Inr created)"
  shows "snd (CreateNote E d userID req) =
           Inl (Wrapf ''failed to process tags'' (Errorf ''tag name cannot be empty''))"
proof -
  define tags where "tags = uniqueStrings (Create_Tags req)"
  have m: "name \<in> set tags" using assms(3) by (simp add: tags_def set_uniqueStrings)
  then have l: "length tags > 0" by (cases tags) auto
  have "ToLower E (TrimSpace name) = []" using assms(4) by simp
  with m have "list_ex (\<lambda>name. ToLower E (TrimSpace name) = []) tags"
    unfolding list_ex_iff by (rule_tac x = name in bexI)
  from ensureTagsExist_blank [OF this, of d1 userID]
  obtain d2 where e: "ensureTagsExist E d1 userID tags =
      (d2, Inl (Errorf ''tag name cannot be empty''))"
    by (cases "ensureTagsExist E d1 userID tags") auto
  show ?thesis
    unfolding CreateNote_def Let_def tags_def [symmetric]
    using assms(1,2,5) l e by (simp del: length_greater_0_conv)
qed

subsection \<open>Updating a note\<close>

text \<open>The reading of the claims: the version numbers a note has, the row an update
  with the supplied fields gives, and the snapshot of a row under a number.\<close>

definition version_numbers :: "db \<Rightarrow> string \<Rightarrow> int list" where
  "version_numbers d noteID =
     map VersionNumber (filter (\<lambda>v. Version_NoteID v = noteID) (note_versions_table d))"

definition previous_max :: "db \<Rightarrow> string \<Rightarrow> int" where
  "previous_max d noteID =
     (if version_numbers d noteID = [] then 0 else Max (set (version_numbers d noteID)))"

definition new_row :: "Note \<Rightarrow> string option \<Rightarrow> string option \<Rightarrow> string option \<Rightarrow> Note" where
  "new_row OLD title contentMd sourceURL =
     OLD\<lparr>Title := (case title of None \<Rightarrow> Title OLD | Some t \<Rightarrow> t),
          ContentMd := (case contentMd of None \<Rightarrow> ContentMd OLD | Some c \<Rightarrow> c),
          SourceURL := (case sourceURL of None \<Rightarrow> SourceURL OLD | Some u \<Rightarrow> Some u)\<rparr>"

definition content_differs :: "Note \<Rightarrow> Note \<Rightarrow> bool" where
  "content_differs OLD NEW =
     (Title OLD \<noteq> Title NEW \<or> ContentMd OLD \<noteq> ContentMd NEW \<or> SourceURL OLD \<noteq> SourceURL NEW)"

definition snapshot_of :: "Note \<Rightarrow> int \<Rightarrow> NoteVersion \<Rightarrow> bool" where
  "snapshot_of n number v =
     (Version_NoteID v = ID n \<and> VersionNumber v = number \<and> Version_Title v = Title n \<and>
      Version_ContentMd v = ContentMd n \<and> Version_SourceURL v = SourceURL n)"

lemma latest_version_previous_max: "latest_version d noteID = previous_max d noteID"
proof (cases "version_numbers d noteID")
  case Nil
  then show ?thesis
    by (simp add: latest_version_def previous_max_def version_numbers_def)
next
  case (Cons n ns)
  then have "latest_version d noteID = fold max ns n"
    by (simp add: latest_version_def version_numbers_def)
  also have "\<dots> = Max (set (n # ns))" by (simp only: Max.set_eq_fold)
  finally show ?thesis using Cons by (simp add: previous_max_def)
qed

lemma previous_max_ge:
  assumes "w \<in> set (note_versions_table d)" and "Version_NoteID w = noteID"
  shows "VersionNumber w \<le> previous_max d noteID"
proof -
  have m: "VersionNumber w \<in> set (version_numbers d noteID)"
    using assms by (auto simp: version_numbers_def)
  then have "version_numbers d noteID \<noteq> []" by auto
  with m show ?thesis by (simp add: previous_max_def)
qed

lemma create_note_version_appends:
  "\<exists>v. create_note_version E d OLD NEW =
          Some ((draw_uuid d)\<lparr>note_versions_table := note_versions_table d @ [v]\<rparr>) \<and>
        snapshot_of NEW (previous_max d (ID NEW) + 1) v"
proof -
  define added where "added = (if LENGTH (ContentMd NEW) > LENGTH (ContentMd OLD)
      then LENGTH (ContentMd NEW) - LENGTH (ContentMd OLD) else 0)"
  define removed where "removed = (if LENGTH (ContentMd NEW) > LENGTH (ContentMd OLD)
      then 0 else LENGTH (ContentMd OLD) - LENGTH (ContentMd NEW))"
  define v where "v =
     \<lparr>Version_ID = next_uuid E d, Version_NoteID = ID NEW,
      VersionNumber = previous_max d (ID NEW) + 1, Version_Title = Title NEW,
      Version_ContentMd = ContentMd NEW, Version_SourceURL = SourceURL NEW,
      Version_Tags = note_tag_names E d (ID NEW),
      ChangeSummary = Some (change_summary OLD NEW added removed),
      CharsAdded = added, CharsRemoved = removed, CreatedBy = UserID NEW\<rparr>"
  have c: "create_note_version E d OLD NEW = insert_note_version v (draw_uuid d)"
    unfolding create_note_version_def Let_def latest_version_previous_max v_def added_def
      removed_def ..
  have "\<And>w. w \<in> set (note_versions_table d) \<Longrightarrow> Version_NoteID w = ID NEW \<Longrightarrow>
          VersionNumber w \<noteq> previous_max d (ID NEW) + 1"
    using previous_max_ge [of _ d "ID NEW"] by fastforce
  then have "\<not> list_ex (\<lambda>w. Version_NoteID w = Version_NoteID v \<and>
            VersionNumber w = VersionNumber v) (note_versions_table (draw_uuid d))"
    unfolding list_ex_iff by (auto simp: v_def)
  then have "insert_note_version v (draw_uuid d) =
      Some ((draw_uuid d)\<lparr>note_versions_table := note_versions_table d @ [v]\<rparr>)"
    unfolding insert_note_version_def by simp
  moreover have "snapshot_of NEW (previous_max d (ID NEW) + 1) v"
    by (simp add: snapshot_of_def v_def)
  ultimately show ?thesis using c by auto
qed

lemma note_update_version_cases:
  "(content_differs OLD NEW \<longrightarrow>
      (\<exists>v. note_update_version E d OLD NEW =
              Some ((draw_uuid d)\<lparr>note_versions_table := note_versions_table d @ [v]\<rparr>) \<and>
            snapshot_of NEW (previous_max d (ID NEW) + 1) v)) \<and>
   (\<not> content_differs OLD NEW \<longrightarrow> note_update_version E d OLD NEW = Some d)"
  using create_note_version_appends [of E d OLD NEW]
  unfolding note_update_version_def content_differs_def by simp

lemma find_owned_ID: "find (owned userID noteID) ns = Some n \<Longrightarrow> ID n = noteID \<and> UserID n = userID"
  by (auto simp: find_Some_iff owned_def)

lemma new_row_ID [simp]: "ID (new_row OLD t c s) = ID OLD" "UserID (new_row OLD t c s) = UserID OLD"
  by (simp_all add: new_row_def)

lemma new_row_same: "new_row OLD None None None = OLD"
  by (simp add: new_row_def)

lemma noteRepo_Update_found:
  assumes "find (owned userID noteID) (notes_table d) = Some OLD"
    and "noteRepo_Update E d userID noteID title contentMd sourceURL = (d', r)"
  shows "r = Inr (new_row OLD title contentMd sourceURL)"
    and "content_differs OLD (new_row OLD title contentMd sourceURL) \<Longrightarrow>
           \<exists>v. note_versions_table d' = note_versions_table d @ [v] \<and>
               snapshot_of (new_row OLD title contentMd sourceURL) (previous_max d noteID + 1) v"
    and "\<not> content_differs OLD (new_row OLD title contentMd sourceURL) \<Longrightarrow>
           note_versions_table d' = note_versions_table d"
proof -
  define NEW where "NEW = new_row OLD title contentMd sourceURL"
  have i: "ID NEW = noteID" using find_owned_ID [OF assms(1)] by (simp add: NEW_def)
  have N: "OLD\<lparr>Title := (case title of None \<Rightarrow> Title OLD | Some t \<Rightarrow> t),
          ContentMd := (case contentMd of None \<Rightarrow> ContentMd OLD | Some c \<Rightarrow> c),
          SourceURL := (case sourceURL of None \<Rightarrow> SourceURL OLD | Some u \<Rightarrow> Some u)\<rparr> = NEW"
    by (simp add: NEW_def new_row_def)
  have "r = Inr NEW \<and>
        (content_differs OLD NEW \<longrightarrow>
           (\<exists>v. note_versions_table d' = note_versions_table d @ [v] \<and>
                snapshot_of NEW (previous_max d noteID + 1) v)) \<and>
        (\<not> content_differs OLD NEW \<longrightarrow> note_versions_table d' = note_versions_table d)"
  proof (cases "title = None \<and> contentMd = None \<and> sourceURL = None")
    case True
    then have "NEW = OLD" by (simp add: NEW_def new_row_same)
    moreover have "\<not> content_differs OLD OLD" by (simp add: content_differs_def)
    moreover from True assms have "d' = d" "r = Inr OLD"
      by (simp_all add: noteRepo_Update_def noteRepo_FindByID_def)
    ultimately show ?thesis by simp
  next
    case False
    then have u: "noteRepo_Update E d userID noteID title contentMd sourceURL =
        (case note_update_version E d OLD NEW of
           None \<Rightarrow> (d, Inl (Wrapf ''failed to update note'' (PgError ''unique_violation'')))
         | Some d1 \<Rightarrow>
             (d1\<lparr>notes_table :=
                   map (\<lambda>n. if owned userID noteID n then NEW else n) (notes_table d1)\<rparr>,
              Inr NEW))"
      by (simp only: noteRepo_Update_def False if_False assms(1) option.case Let_def N)
    show ?thesis
    proof (cases "content_differs OLD NEW")
      case True
      with note_update_version_cases [of OLD NEW E d] obtain v where
        "note_update_version E d OLD NEW =
           Some ((draw_uuid d)\<lparr>note_versions_table := note_versions_table d @ [v]\<rparr>)"
        and s: "snapshot_of NEW (previous_max d (ID NEW) + 1) v"
        by blast
      with u assms(2) have "r = Inr NEW" "note_versions_table d' = note_versions_table d @ [v]"
        by auto
      with True s i show ?thesis by auto
    next
      case False
      with note_update_version_cases [of OLD NEW E d]
      have "note_update_version E d OLD NEW = Some d" by blast
      with u assms(2) have "r = Inr NEW" "note_versions_table d' = note_versions_table d"
        by auto
      with False show ?thesis by simp
    qed
  qed
  then show "r = Inr (new_row OLD title contentMd sourceURL)"
    and "content_differs OLD (new_row OLD title contentMd sourceURL) \<Longrightarrow>
           \<exists>v. note_versions_table d' = note_versions_table d @ [v] \<and>
               snapshot_of (new_row OLD title contentMd sourceURL) (previous_max d noteID + 1) v"
    and "\<not> content_differs OLD (new_row OLD title contentMd sourceURL) \<Longrightarrow>
           note_versions_table d' = note_versions_table d"
    unfolding NEW_def by blast+
qed

lemma noteRepo_Update_missing:
  assumes "find (owned userID noteID) (notes_table d) = None"
  shows "noteRepo_Update E d userID noteID title contentMd sourceURL =
           (d, Inl (Errorf ''note not found''))"
  using assms by (simp add: noteRepo_Update_def noteRepo_FindByID_def)

text \<open>After the row of the note, \<^verbatim>\<open>UpdateNote\<close> writes to the tables of the tags and
  of the links only.\<close>

lemma UpdateNote_after_Update:
  assumes "noteRepo_Update E d userID noteID (Update_Title req) (Update_ContentMd req)
             (Update_SourceURL req) = (d1, r1)"
    and "UpdateNote E d userID noteID req = (d', r)"
  shows "notes_table d' = notes_table d1 \<and> note_versions_table d' = note_versions_table d1"
proof (cases r1)
  case (Inl err)
  with assms show ?thesis unfolding UpdateNote_def by simp
next
  case (Inr updated)
  define T where "T = (case Update_Tags req of
         Some tags \<Rightarrow>
           (case ensureTagsExist E d1 userID tags of
              (d2, Inl err) \<Rightarrow> (d2, Inl (Wrapf ''failed to process tags'' err))
            | (d2, Inr tagIDs) \<Rightarrow>
                (case SetNoteTags d2 (ID updated) tagIDs of
                   (d3, Inl err) \<Rightarrow> (d3, Inl (Wrapf ''failed to update tags'' err))
                 | (d3, Inr u) \<Rightarrow> (d3, Inr (updated\<lparr>Tags := tags\<rparr>))))
       | None \<Rightarrow> (d1, Inr (updated\<lparr>Tags := GetNoteTags E d1 noteID\<rparr>)))"
  obtain d4 r4 where t: "T = (d4, r4)" by (cases T)
  have d4: "notes_table d4 = notes_table d1 \<and> note_versions_table d4 = note_versions_table d1"
  proof (cases "Update_Tags req")
    case None
    with t show ?thesis unfolding T_def by simp
  next
    case (Some tags)
    with t have "(case ensureTagsExist E d1 userID tags of
              (d2, Inl err) \<Rightarrow> (d2, Inl (Wrapf ''failed to process tags'' err))
            | (d2, Inr tagIDs) \<Rightarrow>
                (case SetNoteTags d2 (ID updated) tagIDs of
                   (d3, Inl err) \<Rightarrow> (d3, Inl (Wrapf ''failed to update tags'' err))
                 | (d3, Inr u) \<Rightarrow> (d3, Inr (updated\<lparr>Tags := tags\<rparr>)))) = (d4, r4)"
      unfolding T_def by simp
    then show ?thesis by (rule assign_tags_frame)
  qed
  have c: "UpdateNote E d userID noteID req =
      (case T of
         (d4, Inl err) \<Rightarrow> (d4, Inl err)
       | (d4, Inr note') \<Rightarrow>
           (case Update_ContentMd req of
              Some content \<Rightarrow> (fst (processNoteLinks E d4 userID (ID updated) content), Inr note')
            | None \<Rightarrow> (d4, Inr note')))"
    unfolding UpdateNote_def T_def using assms(1) Inr by simp
  show ?thesis
  proof (cases r4)
    case (Inl err)
    with c t assms(2) have "d' = d4" by simp
    with d4 show ?thesis by simp
  next
    case (Inr note')
    show ?thesis
    proof (cases "Update_ContentMd req")
      case None
      with c t Inr assms(2) have "d' = d4" by simp
      with d4 show ?thesis by simp
    next
      case (Some content)
      with c t Inr assms(2)
      have "d' = fst (processNoteLinks E d4 userID (ID updated) content)" by simp
      with d4 processNoteLinks_frame [of E d4 userID "ID updated" content]
      show ?thesis by simp
    qed
  qed
qed

subsection \<open>An environment and a store for the examples\<close>

text \<open>Identifiers \<^verbatim>\<open>note-uuid-0\<close>, \<^verbatim>\<open>note-uuid-1\<close>, ...; strings in ASCII; names in
  the order of their bytes. The store holds the note \<^verbatim>\<open>Alpha\<close> of the user \<^verbatim>\<open>u1\<close>, as
  \<^verbatim>\<open>CreateNote\<close> leaves it in an empty store.\<close>

definition example_env :: env where
  "example_env =
     \<lparr>uuid_New = (\<lambda>n. ''note-uuid-'' @ decimal n), unicode_ToLower = (\<lambda>s. s),
      pg_LOWER = map lower_byte, pg_ORDER_BY = sort\<rparr>"

definition empty_db :: db where
  "empty_db =
     \<lparr>notes_table = [], tags_table = [], note_tags_table = [], note_links_table = [],
      note_versions_table = [], uuid_count = 0\<rparr>"

definition alpha_note :: Note where
  "alpha_note =
     \<lparr>ID = ''note-uuid-0'', UserID = ''u1'', Title = ''Alpha'', ContentMd = ''Hello'',
      SourceURL = None, IsPublic = False, PublicSlug = None, ViewCount = 0, Tags = []\<rparr>"

definition alpha_version :: NoteVersion where
  "alpha_version =
     \<lparr>Version_ID = ''note-uuid-1'', Version_NoteID = ''note-uuid-0'', VersionNumber = 1,
      Version_Title = ''Alpha'', Version_ContentMd = ''Hello'', Version_SourceURL = None,
      Version_Tags = [], ChangeSummary = Some ''Initial version'', CharsAdded = 5,
      CharsRemoved = 0, CreatedBy = ''u1''\<rparr>"

definition alpha_db :: db where
  "alpha_db =
     \<lparr>notes_table = [alpha_note], tags_table = [], note_tags_table = [],
      note_links_table = [], note_versions_table = [alpha_version], uuid_count = 2\<rparr>"

definition alpha_request :: CreateNoteRequest where
  "alpha_request =
     \<lparr>Create_Title = ''Alpha'', Create_ContentMd = ''Hello'', Create_SourceURL = None,
      Create_Tags = []\<rparr>"

lemma CreateNote_alpha:
  "CreateNote example_env empty_db ''u1'' alpha_request = (alpha_db, Inr alpha_note)"
  by code_simp

definition blank_tag_request :: CreateNoteRequest where
  "blank_tag_request =
     \<lparr>Create_Title = ''Alpha'', Create_ContentMd = ''Hello'', Create_SourceURL = None,
      Create_Tags = [''go'', '' '']\<rparr>"

lemma TrimSpace_blank: "TrimSpace '' '' = []"
  by code_simp

text \<open>
  Claim C10. \<^verbatim>\<open>CreateNote\<close> is not atomic with the resolution of the tags. For a title
  and a body that are not empty and a list of tags with a name that is empty once
  trimmed, on a store where the identifier drawn for the note is new, \<^verbatim>\<open>CreateNote\<close>
  returns the error of the tag repository, and the store it leaves holds the row of the
  note and its version 1: nothing is rolled back.
\<close>

theorem CreateNote_not_atomic_with_tags:
  assumes "Create_Title req \<noteq> []" and "Create_ContentMd req \<noteq> []"
    and "name \<in> set (Create_Tags req)" and "TrimSpace name = []"
    and "\<not> list_ex (\<lambda>n. ID n = next_uuid E d) (notes_table d)"
    and "\<not> list_ex (\<lambda>w. Version_NoteID w = next_uuid E d \<and> VersionNumber w = 1)
             (note_versions_table d)"
  shows "\<exists>d' created v.
           CreateNote E d userID req =
             (d', Inl (Wrapf ''failed to process tags'' (Errorf ''tag name cannot be empty''))) \<and>
           notes_table d' = notes_table d @ [created] \<and>
           UserID created = userID \<and> Title created = Create_Title req \<and>
           ContentMd created = Create_ContentMd req \<and>
           note_versions_table d' = note_versions_table d @ [v] \<and> first_version created v"
proof -
  obtain d1 created where c: "noteRepo_Create E d userID (Create_Title req)
      (Create_ContentMd req) (Create_SourceURL req) = (d1, Inr created)"
    using noteRepo_Create_succeeds [OF assms(5,6)] by blast
  obtain d' r where n: "CreateNote E d userID req = (d', r)"
    by (cases "CreateNote E d userID req")
  have r: "r = Inl (Wrapf ''failed to process tags'' (Errorf ''tag name cannot be empty''))"
    using CreateNote_blank_tag [OF assms(1,2,3,4) c] n by simp
  have t: "notes_table d' = notes_table d1 \<and> note_versions_table d' = note_versions_table d1"
    using CreateNote_after_Create [OF assms(1,2) c n] .
  from noteRepo_Create_Inr [OF c] obtain v where
    "notes_table d1 = notes_table d @ [created]"
    "note_versions_table d1 = note_versions_table d @ [v]" "first_version created v"
    "UserID created = userID" "Title created = Create_Title req"
    "ContentMd created = Create_ContentMd req"
    by blast
  with n r t show ?thesis by auto
qed

theorem CreateNote_not_atomic_with_tags_witness:
  "Create_Title blank_tag_request \<noteq> [] \<and> Create_ContentMd blank_tag_request \<noteq> []
   \<and> '' '' \<in> set (Create_Tags blank_tag_request) \<and> TrimSpace '' '' = []
   \<and> snd (CreateNote example_env empty_db ''u1'' blank_tag_request) =
       Inl (Wrapf ''failed to process tags'' (Errorf ''tag name cannot be empty''))
   \<and> notes_table (fst (CreateNote example_env empty_db ''u1'' blank_tag_request)) = [alpha_note]
   \<and> note_versions_table (fst (CreateNote example_env empty_db ''u1'' blank_tag_request)) =
       [alpha_version]"
proof -
  have h: "Create_Title blank_tag_request \<noteq> []" "Create_ContentMd blank_tag_request \<noteq> []"
    "'' '' \<in> set (Create_Tags blank_tag_request)"
    by (simp_all add: blank_tag_request_def)
  have f: "\<not> list_ex (\<lambda>n. ID n = next_uuid example_env empty_db) (notes_table empty_db)"
    "\<not> list_ex (\<lambda>w. Version_NoteID w = next_uuid example_env empty_db \<and> VersionNumber w = 1)
        (note_versions_table empty_db)"
    by (simp_all add: empty_db_def)
  from CreateNote_not_atomic_with_tags [OF h TrimSpace_blank f, of "''u1''"]
  have e: "snd (CreateNote example_env empty_db ''u1'' blank_tag_request) =
       Inl (Wrapf ''failed to process tags'' (Errorf ''tag name cannot be empty''))"
    by auto
  have n: "notes_table (fst (CreateNote example_env empty_db ''u1'' blank_tag_request)) =
      [alpha_note]"
    by code_simp
  have v: "note_versions_table (fst (CreateNote example_env empty_db ''u1'' blank_tag_request)) =
      [alpha_version]"
    by code_simp
  show ?thesis using h TrimSpace_blank e n v by blast
qed

lemma CreateNote_rejected:
  "Create_Title req = [] \<or> Create_ContentMd req = [] \<Longrightarrow>
   \<exists>err. CreateNote E d userID req = (d, Inl err)"
  unfolding CreateNote_def by auto

lemma CreateNote_note_and_version:
  assumes "CreateNote E d userID req = (d', r)"
  shows "(notes_table d' = notes_table d \<and> note_versions_table d' = note_versions_table d \<and>
          (\<exists>err. r = Inl err))
       \<or> (\<exists>created v. notes_table d' = notes_table d @ [created] \<and>
              note_versions_table d' = note_versions_table d @ [v] \<and> first_version created v \<and>
              UserID created = userID \<and> Title created = Create_Title req \<and>
              ContentMd created = Create_ContentMd req \<and>
              SourceURL created = Create_SourceURL req)"
proof (cases "Create_Title req = [] \<or> Create_ContentMd req = []")
  case True
  from CreateNote_rejected [OF this, of E d userID] assms show ?thesis by auto
next
  case False
  then have ne: "Create_Title req \<noteq> []" "Create_ContentMd req \<noteq> []" by simp_all
  obtain d1 r1 where c: "noteRepo_Create E d userID (Create_Title req)
      (Create_ContentMd req) (Create_SourceURL req) = (d1, r1)"
    by (cases "noteRepo_Create E d userID (Create_Title req) (Create_ContentMd req)
      (Create_SourceURL req)")
  note t = CreateNote_after_Create [OF ne c assms]
  show ?thesis
  proof (cases r1)
    case (Inl err)
    from noteRepo_Create_Inl [OF c [unfolded Inl]] t
    have "notes_table d' = notes_table d \<and> note_versions_table d' = note_versions_table d"
      by simp
    moreover have "\<exists>err. r = Inl err"
      using assms c Inl ne unfolding CreateNote_def Let_def by auto
    ultimately show ?thesis by blast
  next
    case (Inr created)
    from noteRepo_Create_Inr [OF c [unfolded Inr]] t show ?thesis by auto
  qed
qed

definition retitle_request :: UpdateNoteRequest where
  "retitle_request =
     \<lparr>Update_Title = Some ''Alpha two'', Update_ContentMd = None, Update_SourceURL = None,
      Update_Tags = None\<rparr>"

definition retag_request :: UpdateNoteRequest where
  "retag_request =
     \<lparr>Update_Title = Some ''Alpha'', Update_ContentMd = None, Update_SourceURL = None,
      Update_Tags = Some [''go'']\<rparr>"

text \<open>
  Claim C1. Version 1 is created with the note: \<^verbatim>\<open>CreateNote\<close> leaves either no new row
  at all, or the row of the note together with one new version of it, numbered 1, with
  its title, body and source URL. \<^verbatim>\<open>UpdateNote\<close> on a note of the user appends exactly
  one version, with the new content and the number one above the highest number of the
  note, when the update changes the title or the body (or the source URL, the third
  column the trigger compares); an update that leaves the three as they are, whatever it
  does to the tags, leaves the versions as they are.
\<close>

theorem versions_follow_content:
  assumes "CreateNote E d0 creator creq = (d0', r0)"
    and "find (owned userID noteID) (notes_table d) = Some OLD"
    and "UpdateNote E d userID noteID req = (d', r)"
    and "NEW = new_row OLD (Update_Title req) (Update_ContentMd req) (Update_SourceURL req)"
  shows "((notes_table d0' = notes_table d0 \<and> note_versions_table d0' = note_versions_table d0 \<and>
           (\<exists>err. r0 = Inl err))
          \<or> (\<exists>created v. notes_table d0' = notes_table d0 @ [created] \<and>
                note_versions_table d0' = note_versions_table d0 @ [v] \<and>
                first_version created v \<and> UserID created = creator \<and>
                Title created = Create_Title creq \<and> ContentMd created = Create_ContentMd creq \<and>
                SourceURL created = Create_SourceURL creq))
       \<and> (Title NEW \<noteq> Title OLD \<or> ContentMd NEW \<noteq> ContentMd OLD \<or> SourceURL NEW \<noteq> SourceURL OLD \<longrightarrow>
            (\<exists>v. note_versions_table d' = note_versions_table d @ [v] \<and>
                 snapshot_of NEW (previous_max d noteID + 1) v))
       \<and> (Title NEW = Title OLD \<and> ContentMd NEW = ContentMd OLD \<and> SourceURL NEW = SourceURL OLD \<longrightarrow>
            note_versions_table d' = note_versions_table d)"
proof -
  obtain d1 r1 where u: "noteRepo_Update E d userID noteID (Update_Title req)
      (Update_ContentMd req) (Update_SourceURL req) = (d1, r1)"
    by (cases "noteRepo_Update E d userID noteID (Update_Title req) (Update_ContentMd req)
      (Update_SourceURL req)")
  have t: "note_versions_table d' = note_versions_table d1"
    using UpdateNote_after_Update [OF u assms(3)] by simp
  note f = noteRepo_Update_found [OF assms(2) u, folded assms(4)]
  have c: "content_differs OLD NEW \<longleftrightarrow>
      (Title NEW \<noteq> Title OLD \<or> ContentMd NEW \<noteq> ContentMd OLD \<or> SourceURL NEW \<noteq> SourceURL OLD)"
    unfolding content_differs_def by auto
  show ?thesis
    using CreateNote_note_and_version [OF assms(1)] f(2,3) t unfolding c by auto
qed

theorem versions_follow_content_witness:
  "CreateNote example_env empty_db ''u1'' alpha_request = (alpha_db, Inr alpha_note)
   \<and> find (owned ''u1'' ''note-uuid-0'') (notes_table alpha_db) = Some alpha_note
   \<and> Title (new_row alpha_note (Some ''Alpha two'') None None) \<noteq> Title alpha_note
   \<and> (\<exists>v. note_versions_table
             (fst (UpdateNote example_env alpha_db ''u1'' ''note-uuid-0'' retitle_request)) =
           note_versions_table alpha_db @ [v] \<and> VersionNumber v = 2 \<and>
           Version_Title v = ''Alpha two'')
   \<and> note_versions_table
        (fst (UpdateNote example_env alpha_db ''u1'' ''note-uuid-0'' retag_request)) =
      note_versions_table alpha_db"
proof -
  have a: "find (owned ''u1'' ''note-uuid-0'') (notes_table alpha_db) = Some alpha_note"
    by (simp add: alpha_db_def alpha_note_def owned_def)
  have p: "previous_max alpha_db ''note-uuid-0'' = 1"
    by (simp add: previous_max_def version_numbers_def alpha_db_def alpha_version_def)
  have n1: "Title (new_row alpha_note (Some ''Alpha two'') None None) \<noteq> Title alpha_note"
    by (simp add: new_row_def alpha_note_def)
  have n2: "new_row alpha_note (Some ''Alpha'') None None = alpha_note"
    by (simp add: new_row_def alpha_note_def)
  have u1: "UpdateNote example_env alpha_db ''u1'' ''note-uuid-0'' retitle_request =
      (fst (UpdateNote example_env alpha_db ''u1'' ''note-uuid-0'' retitle_request),
       snd (UpdateNote example_env alpha_db ''u1'' ''note-uuid-0'' retitle_request))"
    by simp
  have u2: "UpdateNote example_env alpha_db ''u1'' ''note-uuid-0'' retag_request =
      (fst (UpdateNote example_env alpha_db ''u1'' ''note-uuid-0'' retag_request),
       snd (UpdateNote example_env alpha_db ''u1'' ''note-uuid-0'' retag_request))"
    by simp
  have r1: "new_row alpha_note (Some ''Alpha two'') None None =
      new_row alpha_note (Update_Title retitle_request) (Update_ContentMd retitle_request)
        (Update_SourceURL retitle_request)"
    by (simp add: retitle_request_def)
  have r2: "alpha_note =
      new_row alpha_note (Update_Title retag_request) (Update_ContentMd retag_request)
        (Update_SourceURL retag_request)"
    by (simp add: retag_request_def n2)
  from versions_follow_content [OF CreateNote_alpha a u1 r1] n1
  have "\<exists>v. note_versions_table
             (fst (UpdateNote example_env alpha_db ''u1'' ''note-uuid-0'' retitle_request)) =
           note_versions_table alpha_db @ [v] \<and>
           snapshot_of (new_row alpha_note (Some ''Alpha two'') None None) 2 v"
    unfolding p by auto
  then have x: "\<exists>v. note_versions_table
             (fst (UpdateNote example_env alpha_db ''u1'' ''note-uuid-0'' retitle_request)) =
           note_versions_table alpha_db @ [v] \<and> VersionNumber v = 2 \<and>
           Version_Title v = ''Alpha two''"
    by (auto simp: snapshot_of_def new_row_def)
  from versions_follow_content [OF CreateNote_alpha a u2 r2]
  have y: "note_versions_table
        (fst (UpdateNote example_env alpha_db ''u1'' ''note-uuid-0'' retag_request)) =
      note_versions_table alpha_db"
    by blast
  show ?thesis using CreateNote_alpha a n1 x y by blast
qed

subsection \<open>Restoring a version\<close>

lemma RestoreVersion_versions:
  assumes "find (owned userID noteID) (notes_table d) = Some current"
    and "GetVersion d versionID = Inr version"
    and "Version_NoteID version = noteID"
    and "RestoreVersion E d userID noteID versionID = (d', r)"
  shows "\<exists>d1. noteRepo_Update E d userID noteID (Some (Version_Title version))
                 (Some (Version_ContentMd version)) (Version_SourceURL version) =
               (d1, Inr (new_row current (Some (Version_Title version))
                          (Some (Version_ContentMd version)) (Version_SourceURL version))) \<and>
              note_versions_table d' = note_versions_table d1 \<and> (\<exists>restored. r = Inr restored)"
proof -
  define NEW where "NEW = new_row current (Some (Version_Title version))
      (Some (Version_ContentMd version)) (Version_SourceURL version)"
  obtain d1 r1 where u: "noteRepo_Update E d userID noteID (Some (Version_Title version))
      (Some (Version_ContentMd version)) (Version_SourceURL version) = (d1, r1)"
    by (cases "noteRepo_Update E d userID noteID (Some (Version_Title version))
      (Some (Version_ContentMd version)) (Version_SourceURL version)")
  have r1: "r1 = Inr NEW"
    using noteRepo_Update_found(1) [OF assms(1) u] by (simp add: NEW_def)
  define d2 where "d2 =
     (if length (Version_Tags version) > 0 then
        (let tagObjects = FindByNames E d1 userID (Version_Tags version)
         in if length tagObjects > 0
            then fst (SetNoteTags d1 noteID (map Tag_ID tagObjects))
            else d1)
      else fst (SetNoteTags d1 noteID []))"
  have v2: "note_versions_table d2 = note_versions_table d1"
    unfolding d2_def Let_def by (simp add: SetNoteTags_frame del: length_greater_0_conv)
  have f: "noteRepo_FindByID d userID noteID = Inr current"
    using assms(1) by (simp add: noteRepo_FindByID_def)
  have "RestoreVersion E d userID noteID versionID =
      (case noteRepo_FindByID d2 userID noteID of
         Inl err \<Rightarrow> (d2, Inr NEW)
       | Inr freshNote \<Rightarrow> (d2, Inr (freshNote\<lparr>Tags := GetNoteTags E d2 noteID\<rparr>)))"
    unfolding RestoreVersion_def Let_def d2_def
    by (simp add: f assms(2,3) u r1 Let_def del: length_greater_0_conv)
  with assms(4) have "d' = d2 \<and> (\<exists>restored. r = Inr restored)"
    by (cases "noteRepo_FindByID d2 userID noteID") auto
  with v2 u r1 show ?thesis unfolding NEW_def by auto
qed

text \<open>The store after the note \<^verbatim>\<open>Alpha\<close> has been given the title \<^verbatim>\<open>Alpha two\<close>: the
  note has the versions 1 and 2.\<close>

definition alpha_two_db :: db where
  "alpha_two_db = fst (UpdateNote example_env alpha_db ''u1'' ''note-uuid-0'' retitle_request)"

lemma alpha_two_db_tables:
  "notes_table alpha_two_db = [alpha_note\<lparr>Title := ''Alpha two''\<rparr>]"
  "note_versions_table alpha_two_db =
     [alpha_version,
      alpha_version\<lparr>Version_ID := ''note-uuid-2'', VersionNumber := 2,
        Version_Title := ''Alpha two'', ChangeSummary := Some ''Title changed'',
        CharsAdded := 0\<rparr>]"
  unfolding alpha_two_db_def by code_simp+

text \<open>
  Claim C2, as stated, has every restore create a new version. Restoring version 1 of
  the note \<^verbatim>\<open>Alpha\<close>, whose content is still the one of version 1, succeeds and leaves
  the store as it was: the note keeps its single version.
\<close>

theorem RestoreVersion_counterexample:
  "GetVersion alpha_db ''note-uuid-1'' = Inr alpha_version
   \<and> Version_NoteID alpha_version = ''note-uuid-0'' \<and> VersionNumber alpha_version = 1
   \<and> RestoreVersion example_env alpha_db ''u1'' ''note-uuid-0'' ''note-uuid-1'' =
       (alpha_db, Inr alpha_note)
   \<and> note_versions_table alpha_db = [alpha_version]"
proof -
  have "GetVersion alpha_db ''note-uuid-1'' = Inr alpha_version" by code_simp
  moreover have "RestoreVersion example_env alpha_db ''u1'' ''note-uuid-0'' ''note-uuid-1'' =
       (alpha_db, Inr alpha_note)"
    by code_simp
  ultimately show ?thesis by (simp add: alpha_version_def alpha_db_def)
qed

text \<open>
  Claim C2, amended. For a note of the user and a version of that note,
  \<^verbatim>\<open>RestoreVersion\<close> succeeds. When the title or the body of the snapshot differs from
  the one of the note, or the snapshot has a source URL that is not the one of the note,
  it appends exactly one version, numbered one above the highest number of the note,
  with the title and the body of the snapshot, and with its source URL when the snapshot
  has one. When the title, the body and the source URL of the snapshot are those of the
  note, no version is appended. In every case the versions there were are still there,
  unchanged and in their order, so their number never decreases.
\<close>

theorem RestoreVersion_appends_snapshot:
  assumes "find (owned userID noteID) (notes_table d) = Some current"
    and "GetVersion d versionID = Inr version"
    and "Version_NoteID version = noteID"
    and "RestoreVersion E d userID noteID versionID = (d', r)"
  shows "(\<exists>restored. r = Inr restored)
       \<and> (Version_Title version \<noteq> Title current \<or> Version_ContentMd version \<noteq> ContentMd current \<or>
          (\<exists>u. Version_SourceURL version = Some u \<and> SourceURL current \<noteq> Some u) \<longrightarrow>
            (\<exists>v. note_versions_table d' = note_versions_table d @ [v] \<and>
                 Version_NoteID v = noteID \<and> VersionNumber v = previous_max d noteID + 1 \<and>
                 Version_Title v = Version_Title version \<and>
                 Version_ContentMd v = Version_ContentMd version \<and>
                 (Version_SourceURL version \<noteq> None \<longrightarrow>
                    Version_SourceURL v = Version_SourceURL version)))
       \<and> (Version_Title version = Title current \<and> Version_ContentMd version = ContentMd current \<and>
          Version_SourceURL version = SourceURL current \<longrightarrow>
            note_versions_table d' = note_versions_table d)
       \<and> prefix (note_versions_table d) (note_versions_table d')
       \<and> length (note_versions_table d) \<le> length (note_versions_table d')"
proof -
  define NEW where "NEW = new_row current (Some (Version_Title version))
      (Some (Version_ContentMd version)) (Version_SourceURL version)"
  from RestoreVersion_versions [OF assms] obtain d1 where
    u: "noteRepo_Update E d userID noteID (Some (Version_Title version))
          (Some (Version_ContentMd version)) (Version_SourceURL version) = (d1, Inr NEW)"
    and t: "note_versions_table d' = note_versions_table d1"
    and r: "\<exists>restored. r = Inr restored"
    unfolding NEW_def by blast
  note f = noteRepo_Update_found(2,3) [OF assms(1) u, folded NEW_def]
  have N: "Title NEW = Version_Title version" "ContentMd NEW = Version_ContentMd version"
    "SourceURL NEW = (case Version_SourceURL version of None \<Rightarrow> SourceURL current
                      | Some u \<Rightarrow> Some u)"
    "ID NEW = noteID"
    using find_owned_ID [OF assms(1)] by (simp_all add: NEW_def new_row_def)
  have a: "\<exists>v. note_versions_table d' = note_versions_table d @ [v] \<and>
        Version_NoteID v = noteID \<and> VersionNumber v = previous_max d noteID + 1 \<and>
        Version_Title v = Version_Title version \<and>
        Version_ContentMd v = Version_ContentMd version \<and>
        (Version_SourceURL version \<noteq> None \<longrightarrow> Version_SourceURL v = Version_SourceURL version)"
    if "content_differs current NEW"
  proof -
    from f(1) [OF that] obtain v where
      "note_versions_table d1 = note_versions_table d @ [v]"
      "snapshot_of NEW (previous_max d noteID + 1) v"
      by blast
    then show ?thesis
      unfolding snapshot_of_def t N by (auto split: option.splits)
  qed
  have b: "note_versions_table d' = note_versions_table d" if "\<not> content_differs current NEW"
    using f(2) [OF that] t by simp
  have c1: "content_differs current NEW"
    if "Version_Title version \<noteq> Title current \<or> Version_ContentMd version \<noteq> ContentMd current \<or>
        (\<exists>u. Version_SourceURL version = Some u \<and> SourceURL current \<noteq> Some u)"
    using that unfolding content_differs_def N by (auto split: option.splits)
  have c2: "\<not> content_differs current NEW"
    if "Version_Title version = Title current \<and> Version_ContentMd version = ContentMd current \<and>
        Version_SourceURL version = SourceURL current"
    using that unfolding content_differs_def N by (auto split: option.splits)
  have p: "prefix (note_versions_table d) (note_versions_table d')"
    using a b by (cases "content_differs current NEW") auto
  then have "length (note_versions_table d) \<le> length (note_versions_table d')"
    by (rule prefix_length_le)
  with r a b c1 c2 p show ?thesis by blast
qed

theorem RestoreVersion_appends_snapshot_witness:
  "find (owned ''u1'' ''note-uuid-0'') (notes_table alpha_two_db) =
     Some (alpha_note\<lparr>Title := ''Alpha two''\<rparr>)
   \<and> GetVersion alpha_two_db ''note-uuid-1'' = Inr alpha_version
   \<and> Version_NoteID alpha_version = ''note-uuid-0''
   \<and> Version_Title alpha_version \<noteq> Title (alpha_note\<lparr>Title := ''Alpha two''\<rparr>)
   \<and> previous_max alpha_two_db ''note-uuid-0'' = 2
   \<and> (\<exists>v. note_versions_table
             (fst (RestoreVersion example_env alpha_two_db ''u1'' ''note-uuid-0'' ''note-uuid-1'')) =
           note_versions_table alpha_two_db @ [v] \<and>
           VersionNumber v = 3 \<and> Version_Title v = ''Alpha'' \<and> Version_ContentMd v = ''Hello'')"
proof -
  have a: "find (owned ''u1'' ''note-uuid-0'') (notes_table alpha_two_db) =
     Some (alpha_note\<lparr>Title := ''Alpha two''\<rparr>)"
    unfolding alpha_two_db_tables by (simp add: owned_def alpha_note_def)
  have g: "GetVersion alpha_two_db ''note-uuid-1'' = Inr alpha_version"
    unfolding GetVersion_def alpha_two_db_tables by (simp add: alpha_version_def)
  have n: "Version_NoteID alpha_version = ''note-uuid-0''" by (simp add: alpha_version_def)
  have t: "Version_Title alpha_version \<noteq> Title (alpha_note\<lparr>Title := ''Alpha two''\<rparr>)"
    by (simp add: alpha_version_def)
  have p: "previous_max alpha_two_db ''note-uuid-0'' = 2"
    unfolding previous_max_def version_numbers_def alpha_two_db_tables
    by (simp add: alpha_version_def)
  have e: "RestoreVersion example_env alpha_two_db ''u1'' ''note-uuid-0'' ''note-uuid-1'' =
      (fst (RestoreVersion example_env alpha_two_db ''u1'' ''note-uuid-0'' ''note-uuid-1''),
       snd (RestoreVersion example_env alpha_two_db ''u1'' ''note-uuid-0'' ''note-uuid-1''))"
    by simp
  from RestoreVersion_appends_snapshot [OF a g n e] t
  have "\<exists>v. note_versions_table
             (fst (RestoreVersion example_env alpha_two_db ''u1'' ''note-uuid-0'' ''note-uuid-1'')) =
           note_versions_table alpha_two_db @ [v] \<and>
           VersionNumber v = previous_max alpha_two_db ''note-uuid-0'' + 1 \<and>
           Version_Title v = Version_Title alpha_version \<and>
           Version_ContentMd v = Version_ContentMd alpha_version"
    by blast
  then have "\<exists>v. note_versions_table
             (fst (RestoreVersion example_env alpha_two_db ''u1'' ''note-uuid-0'' ''note-uuid-1'')) =
           note_versions_table alpha_two_db @ [v] \<and>
           VersionNumber v = 3 \<and> Version_Title v = ''Alpha'' \<and> Version_ContentMd v = ''Hello''"
    unfolding p by (simp add: alpha_version_def)
  with a g n t p show ?thesis by blast
qed

text \<open>
  A snapshot without source URL does not clear the source URL of the note: the pointer
  handed to \<^verbatim>\<open>Update\<close> is nil, and the column is left as it is. In the store below the
  note got its source URL with its second version; restoring version 1 appends a version
  3 with the title of version 1 and the source URL of version 2.
\<close>

definition sourced_db :: db where
  "sourced_db =
     \<lparr>notes_table =
        [alpha_note\<lparr>Title := ''Alpha two'', SourceURL := Some ''https://source.example''\<rparr>],
      tags_table = [], note_tags_table = [], note_links_table = [],
      note_versions_table =
        [alpha_version,
         alpha_version\<lparr>Version_ID := ''note-uuid-2'', VersionNumber := 2,
           Version_Title := ''Alpha two'',
           Version_SourceURL := Some ''https://source.example'',
           ChangeSummary := Some ''Title changed'', CharsAdded := 0\<rparr>],
      uuid_count = 3\<rparr>"

lemma RestoreVersion_keeps_source_url:
  "Version_SourceURL alpha_version = None"
  "note_versions_table
     (fst (RestoreVersion example_env sourced_db ''u1'' ''note-uuid-0'' ''note-uuid-1'')) =
   note_versions_table sourced_db @
     [alpha_version\<lparr>Version_ID := ''note-uuid-3'', VersionNumber := 3,
        Version_SourceURL := Some ''https://source.example'',
        ChangeSummary := Some ''Title changed'', CharsAdded := 0\<rparr>]"
  by code_simp+

subsection \<open>Deleting a tag\<close>

text \<open>The reading of the claim: a note of the user that carries the tag.\<close>

definition carries :: "db \<Rightarrow> string \<Rightarrow> string \<Rightarrow> Note \<Rightarrow> bool" where
  "carries d userID tagID n = (UserID n = userID \<and> (ID n, tagID) \<in> set (note_tags_table d))"

lemma set_notes_with_tag:
  "set (notes_with_tag d userID tagID) = ID ` {n \<in> set (notes_table d). carries d userID tagID n}"
  by (auto simp: notes_with_tag_def carries_def)

lemma distinct_notes_with_tag: "distinct (notes_with_tag d userID tagID)"
  by (simp add: notes_with_tag_def)

lemma gone_carries:
  "n \<in> set (notes_table d) \<Longrightarrow>
   (ID n \<in> set (notes_with_tag d userID tagID) \<and> UserID n = userID) = carries d userID tagID n"
  unfolding set_notes_with_tag by (auto simp: carries_def)

lemma delete_notes_with_tag:
  "notes_table (delete_notes d (notes_with_tag d userID tagID) userID) =
     filter (\<lambda>n. \<not> carries d userID tagID n) (notes_table d)"
  "tags_table (delete_notes d (notes_with_tag d userID tagID) userID) = tags_table d"
  "note_versions_table (delete_notes d (notes_with_tag d userID tagID) userID) =
     filter (\<lambda>v. Version_NoteID v \<notin> set (notes_with_tag d userID tagID)) (note_versions_table d)"
proof -
  have g: "filter (\<lambda>n. \<not> (ID n \<in> set (notes_with_tag d userID tagID) \<and> UserID n = userID))
             (notes_table d) = filter (\<lambda>n. \<not> carries d userID tagID n) (notes_table d)"
    by (rule filter_cong) (simp_all add: gone_carries)
  have i: "set (map ID (filter (\<lambda>n. ID n \<in> set (notes_with_tag d userID tagID) \<and> UserID n = userID)
             (notes_table d))) = set (notes_with_tag d userID tagID)"
    unfolding set_notes_with_tag by (auto simp: carries_def)
  show "notes_table (delete_notes d (notes_with_tag d userID tagID) userID) =
     filter (\<lambda>n. \<not> carries d userID tagID n) (notes_table d)"
    unfolding delete_notes_def Let_def using g by simp
  show "tags_table (delete_notes d (notes_with_tag d userID tagID) userID) = tags_table d"
    unfolding delete_notes_def Let_def by simp
  show "note_versions_table (delete_notes d (notes_with_tag d userID tagID) userID) =
     filter (\<lambda>v. Version_NoteID v \<notin> set (notes_with_tag d userID tagID)) (note_versions_table d)"
    unfolding delete_notes_def Let_def using i by simp
qed

lemma no_notes_with_tag:
  assumes "notes_with_tag d userID tagID = []"
  shows "filter (\<lambda>n. \<not> carries d userID tagID n) (notes_table d) = notes_table d"
    and "filter (\<lambda>v. Version_NoteID v \<notin> set (notes_with_tag d userID tagID))
           (note_versions_table d) = note_versions_table d"
proof -
  have "{n \<in> set (notes_table d). carries d userID tagID n} = {}"
    using set_notes_with_tag [of d userID tagID] assms by simp
  then show "filter (\<lambda>n. \<not> carries d userID tagID n) (notes_table d) = notes_table d"
    by (auto simp: filter_id_conv)
  show "filter (\<lambda>v. Version_NoteID v \<notin> set (notes_with_tag d userID tagID))
           (note_versions_table d) = note_versions_table d"
    using assms by simp
qed

lemma tagRepo_Delete_found:
  assumes "tagRepo_FindByID d userID tagID = Inr tag"
  shows "\<exists>d'. tagRepo_Delete d userID tagID = (d', Inr (notes_with_tag d userID tagID)) \<and>
          notes_table d' = filter (\<lambda>n. \<not> carries d userID tagID n) (notes_table d) \<and>
          note_versions_table d' =
            filter (\<lambda>v. Version_NoteID v \<notin> set (notes_with_tag d userID tagID))
              (note_versions_table d) \<and>
          tags_table d' =
            filter (\<lambda>t. \<not> (Tag_ID t = tagID \<and> Tag_UserID t = userID)) (tags_table d)"
proof -
  define noteIDs where "noteIDs = notes_with_tag d userID tagID"
  define d1 where "d1 = (if length noteIDs > 0 then delete_notes d noteIDs userID else d)"
  from assms obtain t where "find (\<lambda>t. Tag_UserID t = userID \<and> Tag_ID t = tagID) (tags_table d) = Some t"
    by (auto simp: tagRepo_FindByID_def split: option.splits)
  then have "\<exists>t \<in> set (tags_table d). Tag_ID t = tagID \<and> Tag_UserID t = userID"
    unfolding find_Some_iff by (metis nth_mem)
  then have e: "list_ex (\<lambda>t. Tag_ID t = tagID \<and> Tag_UserID t = userID) (tags_table d)"
    unfolding list_ex_iff .
  have t1: "tags_table d1 = tags_table d"
    unfolding d1_def noteIDs_def by (simp add: delete_notes_with_tag del: length_greater_0_conv)
  have n1: "notes_table d1 = filter (\<lambda>n. \<not> carries d userID tagID n) (notes_table d)"
    and v1: "note_versions_table d1 =
            filter (\<lambda>v. Version_NoteID v \<notin> set (notes_with_tag d userID tagID))
              (note_versions_table d)"
    unfolding d1_def noteIDs_def
    using no_notes_with_tag [of d userID tagID]
    by (simp_all add: delete_notes_with_tag)
  have "tagRepo_Delete d userID tagID =
      (d1\<lparr>tags_table :=
             filter (\<lambda>t. \<not> (Tag_ID t = tagID \<and> Tag_UserID t = userID)) (tags_table d1),
           note_tags_table := filter (\<lambda>nt. snd nt \<noteq> tagID) (note_tags_table d1)\<rparr>,
       Inr noteIDs)"
    unfolding tagRepo_Delete_def Let_def noteIDs_def [symmetric] d1_def [symmetric]
    using e t1 by simp
  then show ?thesis using n1 v1 t1 unfolding noteIDs_def by simp
qed

lemma delete_notes_note_tags:
  "note_tags_table (delete_notes d (notes_with_tag d userID tagID) userID) =
     filter (\<lambda>nt. fst nt \<notin> set (notes_with_tag d userID tagID)) (note_tags_table d)"
proof -
  have "set (map ID (filter (\<lambda>n. ID n \<in> set (notes_with_tag d userID tagID) \<and> UserID n = userID)
             (notes_table d))) = set (notes_with_tag d userID tagID)"
    unfolding set_notes_with_tag by (auto simp: carries_def)
  then show ?thesis unfolding delete_notes_def Let_def by simp
qed

lemma tagRepo_Delete_note_tags:
  assumes "tagRepo_Delete d userID tagID = (d', Inr noteIDs)"
  shows "note_tags_table d' =
           filter (\<lambda>nt. fst nt \<notin> set (notes_with_tag d userID tagID) \<and> snd nt \<noteq> tagID)
             (note_tags_table d)"
proof (cases "length (notes_with_tag d userID tagID) > 0")
  case True
  with assms have "note_tags_table d' = filter (\<lambda>nt. snd nt \<noteq> tagID)
      (note_tags_table (delete_notes d (notes_with_tag d userID tagID) userID))"
    unfolding tagRepo_Delete_def Let_def by (auto split: if_splits)
  then show ?thesis by (simp add: delete_notes_note_tags conj_commute)
next
  case False
  then have "notes_with_tag d userID tagID = []" by simp
  with assms show ?thesis
    unfolding tagRepo_Delete_def Let_def by (auto split: if_splits)
qed

text \<open>A store with four notes of the user \<^verbatim>\<open>u1\<close>: three carry the tag \<^verbatim>\<open>go\<close>, the
  fourth the tag \<^verbatim>\<open>rust\<close>.\<close>

definition plain_note :: "string \<Rightarrow> string \<Rightarrow> Note" where
  "plain_note noteID title =
     \<lparr>ID = noteID, UserID = ''u1'', Title = title, ContentMd = ''Hello'', SourceURL = None,
      IsPublic = False, PublicSlug = None, ViewCount = 0, Tags = []\<rparr>"

definition plain_version :: "string \<Rightarrow> string \<Rightarrow> string \<Rightarrow> NoteVersion" where
  "plain_version versionID noteID title =
     \<lparr>Version_ID = versionID, Version_NoteID = noteID, VersionNumber = 1,
      Version_Title = title, Version_ContentMd = ''Hello'', Version_SourceURL = None,
      Version_Tags = [], ChangeSummary = Some ''Initial version'', CharsAdded = 5,
      CharsRemoved = 0, CreatedBy = ''u1''\<rparr>"

definition tagged_db :: db where
  "tagged_db =
     \<lparr>notes_table = [plain_note ''note-1'' ''One'', plain_note ''note-2'' ''Two'',
                      plain_note ''note-3'' ''Three'', plain_note ''note-4'' ''Four''],
      tags_table = [\<lparr>Tag_ID = ''tag-go'', Tag_UserID = ''u1'', Tag_Name = ''go''\<rparr>,
                    \<lparr>Tag_ID = ''tag-rust'', Tag_UserID = ''u1'', Tag_Name = ''rust''\<rparr>],
      note_tags_table = [(''note-1'', ''tag-go''), (''note-2'', ''tag-go''),
                         (''note-3'', ''tag-go''), (''note-4'', ''tag-rust'')],
      note_links_table = [(''link-1'', ''note-4'', ''note-1'')],
      note_versions_table = [plain_version ''version-1'' ''note-1'' ''One'',
                             plain_version ''version-2'' ''note-2'' ''Two'',
                             plain_version ''version-3'' ''note-3'' ''Three'',
                             plain_version ''version-4'' ''note-4'' ''Four''],
      uuid_count = 0\<rparr>"

definition untagged_db :: db where
  "untagged_db =
     \<lparr>notes_table = [plain_note ''note-4'' ''Four''],
      tags_table = [\<lparr>Tag_ID = ''tag-rust'', Tag_UserID = ''u1'', Tag_Name = ''rust''\<rparr>],
      note_tags_table = [(''note-4'', ''tag-rust'')],
      note_links_table = [],
      note_versions_table = [plain_version ''version-4'' ''note-4'' ''Four''],
      uuid_count = 0\<rparr>"

lemma DeleteTag_example:
  "tagRepo_FindByID tagged_db ''u1'' ''tag-go'' =
     Inr \<lparr>Tag_ID = ''tag-go'', Tag_UserID = ''u1'', Tag_Name = ''go''\<rparr>"
  "tagRepo_Delete tagged_db ''u1'' ''tag-go'' =
     (untagged_db, Inr [''note-1'', ''note-2'', ''note-3''])"
  "DeleteTag tagged_db ''u1'' ''tag-go'' = (untagged_db, Inr 3)"
  by code_simp+

text \<open>
  Claim C3. For a tag of the owner, the tag repository deletes, in one transaction,
  every note of the owner that carries the tag and returns the ids of these notes, each
  once, and \<^verbatim>\<open>DeleteTag\<close> returns their number. The rows of the other notes stay as they
  are, in their order, with their versions and their other tags. With the tag on three
  notes of four, the three are deleted and the fourth is as it was.
\<close>

theorem DeleteTag_deletes_tagged_notes:
  assumes "tagRepo_FindByID d userID tagID = Inr tag"
  shows "\<exists>d'. tagRepo_Delete d userID tagID = (d', Inr (notes_with_tag d userID tagID))
       \<and> DeleteTag d userID tagID = (d', Inr (int (length (notes_with_tag d userID tagID))))
       \<and> distinct (notes_with_tag d userID tagID)
       \<and> set (notes_with_tag d userID tagID) =
           ID ` {n \<in> set (notes_table d). carries d userID tagID n}
       \<and> notes_table d' = filter (\<lambda>n. \<not> carries d userID tagID n) (notes_table d)
       \<and> note_versions_table d' =
           filter (\<lambda>v. Version_NoteID v \<notin> set (notes_with_tag d userID tagID))
             (note_versions_table d)
       \<and> note_tags_table d' =
           filter (\<lambda>nt. fst nt \<notin> set (notes_with_tag d userID tagID) \<and> snd nt \<noteq> tagID)
             (note_tags_table d)"
proof -
  from tagRepo_Delete_found [OF assms] obtain d' where
    r: "tagRepo_Delete d userID tagID = (d', Inr (notes_with_tag d userID tagID))"
    and n: "notes_table d' = filter (\<lambda>n. \<not> carries d userID tagID n) (notes_table d)"
    and v: "note_versions_table d' =
            filter (\<lambda>v. Version_NoteID v \<notin> set (notes_with_tag d userID tagID))
              (note_versions_table d)"
    by blast
  have s: "DeleteTag d userID tagID =
      (d', Inr (int (length (notes_with_tag d userID tagID))))"
    unfolding DeleteTag_def Let_def GetNotesCountByTag_def using assms r by simp
  show ?thesis
    using r s n v tagRepo_Delete_note_tags [OF r] distinct_notes_with_tag [of d userID tagID]
      set_notes_with_tag [of d userID tagID]
    by blast
qed

theorem DeleteTag_deletes_tagged_notes_witness:
  "tagRepo_FindByID tagged_db ''u1'' ''tag-go'' =
     Inr \<lparr>Tag_ID = ''tag-go'', Tag_UserID = ''u1'', Tag_Name = ''go''\<rparr>
   \<and> tagRepo_Delete tagged_db ''u1'' ''tag-go'' =
       (untagged_db, Inr [''note-1'', ''note-2'', ''note-3''])
   \<and> DeleteTag tagged_db ''u1'' ''tag-go'' = (untagged_db, Inr 3)
   \<and> notes_with_tag tagged_db ''u1'' ''tag-go'' = [''note-1'', ''note-2'', ''note-3'']
   \<and> notes_table untagged_db = [plain_note ''note-4'' ''Four'']
   \<and> filter (\<lambda>n. \<not> carries tagged_db ''u1'' ''tag-go'' n) (notes_table tagged_db) =
       [plain_note ''note-4'' ''Four'']"
proof -
  from DeleteTag_deletes_tagged_notes [OF DeleteTag_example(1)]
  obtain d' where
    "tagRepo_Delete tagged_db ''u1'' ''tag-go'' =
       (d', Inr (notes_with_tag tagged_db ''u1'' ''tag-go''))"
    "notes_table d' =
       filter (\<lambda>n. \<not> carries tagged_db ''u1'' ''tag-go'' n) (notes_table tagged_db)"
    by blast
  then have "notes_with_tag tagged_db ''u1'' ''tag-go'' = [''note-1'', ''note-2'', ''note-3'']"
    and "filter (\<lambda>n. \<not> carries tagged_db ''u1'' ''tag-go'' n) (notes_table tagged_db) =
       notes_table untagged_db"
    unfolding DeleteTag_example by simp_all
  then show ?thesis
    using DeleteTag_example by (simp add: untagged_db_def)
qed

subsection \<open>Sharing a note\<close>

lemma TogglePublic_public:
  assumes "list_ex (owned userID noteID) (notes_table d)"
  shows "TogglePublic d userID noteID True (Some slug) =
     (if list_ex (\<lambda>m. \<not> owned userID noteID m \<and> PublicSlug m = Some slug) (notes_table d)
      then (d, Inl (Wrapf ''failed to toggle public status'' (PgError ''unique_violation'')))
      else (d\<lparr>notes_table :=
                map (\<lambda>m. if owned userID noteID m
                          then m\<lparr>IsPublic := True, PublicSlug := Some slug\<rparr> else m)
                  (notes_table d)\<rparr>,
            Inr ()))"
  using assms unfolding TogglePublic_def by simp

lemma owned_update [simp]:
  "owned userID noteID (m\<lparr>IsPublic := b, PublicSlug := s\<rparr>) = owned userID noteID m"
  by (simp add: owned_def)

lemma slug_unique_after:
  assumes "\<not> list_ex (\<lambda>m. \<not> owned userID noteID m \<and> PublicSlug m = Some slug) ns"
  shows "list_all (\<lambda>m. (PublicSlug m = Some slug) = owned userID noteID m)
           (map (\<lambda>m. if owned userID noteID m
                      then m\<lparr>IsPublic := True, PublicSlug := Some slug\<rparr> else m) ns)"
  using assms by (induction ns) auto

lemma ShareNote_collision:
  assumes "noteRepo_FindByID d userID noteID = Inr n"
    and "generateSlug E (Title n) noteID = Inr slug"
    and "\<not> IsSlugAvailable d slug"
  shows "ShareNote E d userID noteID True baseURL =
     (if length noteID < 8 then (d, Inl PanicSliceBounds)
      else if list_ex (\<lambda>m. \<not> owned userID noteID m \<and>
                 PublicSlug m = Some (slug @ ''-'' @ take 8 noteID)) (notes_table d)
      then (d, Inl (Wrapf ''failed to toggle public status'' (PgError ''unique_violation'')))
      else (d\<lparr>notes_table :=
                map (\<lambda>m. if owned userID noteID m
                          then m\<lparr>IsPublic := True,
                                 PublicSlug := Some (slug @ ''-'' @ take 8 noteID)\<rparr>
                          else m)
                  (notes_table d)\<rparr>,
            Inr \<lparr>Share_IsPublic = True,
                 Share_PublicSlug = Some (slug @ ''-'' @ take 8 noteID),
                 PublicURL = Some (baseURL @ ''/public/'' @ slug @ ''-'' @ take 8 noteID)\<rparr>))"
proof -
  from assms(1) have "find (owned userID noteID) (notes_table d) \<noteq> None"
    by (auto simp: noteRepo_FindByID_def split: option.splits)
  then have e: "list_ex (owned userID noteID) (notes_table d)"
    unfolding list_ex_iff find_None_iff by blast
  show ?thesis
  proof (cases "length noteID < 8")
    case True
    then show ?thesis unfolding ShareNote_def using assms by simp
  next
    case False
    then show ?thesis
      unfolding ShareNote_def using assms by (simp add: TogglePublic_public [OF e])
  qed
qed

text \<open>A store with two notes titled \<^verbatim>\<open>Alpha\<close>: the first is public under the slug
  \<^verbatim>\<open>alpha\<close>, the second is private.\<close>

definition first_alpha :: Note where
  "first_alpha =
     \<lparr>ID = ''11111111-aaaa'', UserID = ''u1'', Title = ''Alpha'', ContentMd = ''Hello'',
      SourceURL = None, IsPublic = True, PublicSlug = Some ''alpha'', ViewCount = 0,
      Tags = []\<rparr>"

definition second_alpha :: Note where
  "second_alpha =
     \<lparr>ID = ''22222222-bbbb'', UserID = ''u2'', Title = ''Alpha'', ContentMd = ''World'',
      SourceURL = None, IsPublic = False, PublicSlug = None, ViewCount = 0, Tags = []\<rparr>"

definition shared_db :: db where
  "shared_db =
     \<lparr>notes_table = [first_alpha, second_alpha], tags_table = [], note_tags_table = [],
      note_links_table = [], note_versions_table = [], uuid_count = 0\<rparr>"

lemma ShareNote_example:
  "noteRepo_FindByID shared_db ''u2'' ''22222222-bbbb'' = Inr second_alpha"
  "generateSlug example_env (Title second_alpha) ''22222222-bbbb'' = Inr ''alpha''"
  "\<not> IsSlugAvailable shared_db ''alpha''"
  "ShareNote example_env shared_db ''u2'' ''22222222-bbbb'' True ''https://yapgan.example'' =
     (shared_db\<lparr>notes_table :=
        [first_alpha, second_alpha\<lparr>IsPublic := True, PublicSlug := Some ''alpha-22222222''\<rparr>]\<rparr>,
      Inr \<lparr>Share_IsPublic = True, Share_PublicSlug = Some ''alpha-22222222'',
           PublicURL = Some ''https://yapgan.example/public/alpha-22222222''\<rparr>)"
  by code_simp+

lemma owned_after:
  "list_ex (owned userID noteID) ns \<Longrightarrow>
   list_ex (owned userID noteID)
     (map (\<lambda>m. if owned userID noteID m then m\<lparr>IsPublic := b, PublicSlug := s\<rparr> else m) ns)"
  by (induction ns) auto

text \<open>
  Claim C7. When \<^verbatim>\<open>ShareNote\<close> makes a note public and the slug generated from its
  title is not available, the slug of the note is the generated slug, a hyphen and the
  first 8 bytes of the id of the note. The call succeeds exactly when the id has 8 bytes
  and no other note holds that slug (the column is unique, so the store refuses a second
  holder and the call fails without a change); after it, the note holds the slug and no
  other note of the store does.
\<close>

theorem ShareNote_collision_suffix:
  assumes "noteRepo_FindByID d userID noteID = Inr n"
    and "generateSlug E (Title n) noteID = Inr slug"
    and "\<not> IsSlugAvailable d slug"
    and "suffixed = slug @ ''-'' @ take 8 noteID"
  shows "((\<exists>d' resp. ShareNote E d userID noteID True baseURL = (d', Inr resp)) \<longleftrightarrow>
            (8 \<le> length noteID \<and>
             \<not> list_ex (\<lambda>m. \<not> owned userID noteID m \<and> PublicSlug m = Some suffixed)
                 (notes_table d)))
       \<and> (\<forall>d' resp. ShareNote E d userID noteID True baseURL = (d', Inr resp) \<longrightarrow>
            Share_IsPublic resp \<and> Share_PublicSlug resp = Some suffixed \<and>
            PublicURL resp = Some (baseURL @ ''/public/'' @ suffixed) \<and>
            list_ex (owned userID noteID) (notes_table d') \<and>
            list_all (\<lambda>m. (PublicSlug m = Some suffixed) = owned userID noteID m)
              (notes_table d'))"
proof -
  note s = ShareNote_collision [OF assms(1,2,3), of baseURL, folded assms(4)]
  from assms(1) have "find (owned userID noteID) (notes_table d) \<noteq> None"
    by (auto simp: noteRepo_FindByID_def split: option.splits)
  then have e: "list_ex (owned userID noteID) (notes_table d)"
    unfolding list_ex_iff find_None_iff by blast
  have e': "list_ex (owned userID noteID)
              (map (\<lambda>m. if owned userID noteID m
                         then m\<lparr>IsPublic := True, PublicSlug := Some suffixed\<rparr> else m)
                 (notes_table d))"
    using e by (rule owned_after)
  have a: "(\<exists>d' resp. ShareNote E d userID noteID True baseURL = (d', Inr resp)) \<longleftrightarrow>
            (8 \<le> length noteID \<and>
             \<not> list_ex (\<lambda>m. \<not> owned userID noteID m \<and> PublicSlug m = Some suffixed)
                 (notes_table d))"
  proof (cases "length noteID < 8")
    case True
    then show ?thesis unfolding s by simp
  next
    case False
    then show ?thesis unfolding s by (simp split: if_splits)
  qed
  have b: "Share_IsPublic resp \<and> Share_PublicSlug resp = Some suffixed \<and>
            PublicURL resp = Some (baseURL @ ''/public/'' @ suffixed) \<and>
            list_ex (owned userID noteID) (notes_table d') \<and>
            list_all (\<lambda>m. (PublicSlug m = Some suffixed) = owned userID noteID m)
              (notes_table d')"
    if "ShareNote E d userID noteID True baseURL = (d', Inr resp)" for d' resp
  proof -
    from that have u: "\<not> list_ex (\<lambda>m. \<not> owned userID noteID m \<and> PublicSlug m = Some suffixed)
                 (notes_table d)"
      and d': "d' = d\<lparr>notes_table :=
                map (\<lambda>m. if owned userID noteID m
                          then m\<lparr>IsPublic := True, PublicSlug := Some suffixed\<rparr> else m)
                  (notes_table d)\<rparr>"
      and r: "resp = \<lparr>Share_IsPublic = True, Share_PublicSlug = Some suffixed,
                 PublicURL = Some (baseURL @ ''/public/'' @ suffixed)\<rparr>"
      unfolding s by (auto split: if_splits)
    show ?thesis
      using slug_unique_after [OF u] e' unfolding d' r by simp
  qed
  show ?thesis using a b by blast
qed

theorem ShareNote_collision_suffix_witness:
  "noteRepo_FindByID shared_db ''u2'' ''22222222-bbbb'' = Inr second_alpha
   \<and> generateSlug example_env (Title second_alpha) ''22222222-bbbb'' = Inr ''alpha''
   \<and> \<not> IsSlugAvailable shared_db ''alpha''
   \<and> ''alpha-22222222'' = ''alpha'' @ ''-'' @ take 8 ''22222222-bbbb''
   \<and> ShareNote example_env shared_db ''u2'' ''22222222-bbbb'' True ''https://yapgan.example'' =
       (shared_db\<lparr>notes_table :=
          [first_alpha, second_alpha\<lparr>IsPublic := True, PublicSlug := Some ''alpha-22222222''\<rparr>]\<rparr>,
        Inr \<lparr>Share_IsPublic = True, Share_PublicSlug = Some ''alpha-22222222'',
             PublicURL = Some ''https://yapgan.example/public/alpha-22222222''\<rparr>)
   \<and> list_all (\<lambda>m. (PublicSlug m = Some ''alpha-22222222'') = owned ''u2'' ''22222222-bbbb'' m)
       [first_alpha, second_alpha\<lparr>IsPublic := True, PublicSlug := Some ''alpha-22222222''\<rparr>]"
proof -
  have x: "''alpha-22222222'' = ''alpha'' @ ''-'' @ take 8 ''22222222-bbbb''" by simp
  note t = ShareNote_collision_suffix [OF ShareNote_example(1,2,3) x,
      of "''https://yapgan.example''", THEN conjunct2, rule_format, OF ShareNote_example(4)]
  have n: "notes_table (shared_db\<lparr>notes_table :=
          [first_alpha, second_alpha\<lparr>IsPublic := True, PublicSlug := Some ''alpha-22222222''\<rparr>]\<rparr>)
       = [first_alpha, second_alpha\<lparr>IsPublic := True, PublicSlug := Some ''alpha-22222222''\<rparr>]"
    by simp
  from t have l: "list_all (\<lambda>m. (PublicSlug m = Some ''alpha-22222222'') = owned ''u2'' ''22222222-bbbb'' m)
       [first_alpha, second_alpha\<lparr>IsPublic := True, PublicSlug := Some ''alpha-22222222''\<rparr>]"
    unfolding n by (elim conjE)
  show ?thesis
    by (intro conjI ShareNote_example x l)
qed

end
